theory Spec2Isabelle
  imports Complex_Main "HOL-Library.Sublist" "HOL-Library.Log_Nat"
begin

section \<open>JavaScript values used by the scoring code\<close>

text \<open>
  Strings. A JavaScript string is a sequence of UTF-16 code units. The embedding uses
  \<^typ>\<open>string\<close>, whose characters are the code units \<open>0..255\<close> (ASCII and the Latin-1
  supplement). On that range \<open>length\<close>, \<open>toLowerCase\<close>, the classes \<open>\s\<close>, \<open>[^a-z]\<close>,
  \<open>[aeiouy]\<close>, \<open>[.!?]\<close> and the line terminators excluded by \<open>.\<close> are exactly what the
  functions below compute. Strings holding code units above 255 are outside the model.

  Numbers. A \<open>number\<close> is a double, modelled by its value, a rational. An arithmetic
  operation of the source returns the double nearest to the exact result, a tie going to
  the even significand: \<open>fl\<close> rounds a rational to 53 significant bits, with \<open>exponent a\<close>
  the \<open>e\<close> such that \<open>2^e \<le> a < 2^(e+1)\<close>. A decimal literal is the double nearest to it.
  \<open>NaN\<close>, the infinities, overflow and the subnormal range are not modelled: the counts of
  this code are lengths of strings and arrays, below \<open>2^53\<close>, so they are doubles and every
  quotient and product stays in the normal range. \<open>Math.round\<close> gives the nearest integer
  with ties going up, \<open>floor (x + 1/2)\<close> of the value itself.
\<close>

type_synonym number = rat

definition round_even :: "rat \<Rightarrow> int" where
  "round_even y =
     (let f = \<lfloor>y\<rfloor>; d = y - of_int f
      in if d < 1 / 2 then f else if 1 / 2 < d then f + 1 else if even f then f else f + 1)"

definition exponent :: "rat \<Rightarrow> int" where
  "exponent a =
     (let (p, q) = quotient_of a; d = bitlen p - bitlen q
      in if 2 powi d \<le> a then d else d - 1)"

definition fl :: "rat \<Rightarrow> number" where
  "fl x =
     (if x = 0 then 0
      else let a = \<bar>x\<bar>; ulp = 2 powi (exponent a - 52)
           in sgn x * (of_int (round_even (a / ulp)) * ulp))"

definition js_lit :: "rat \<Rightarrow> number" where
  \<comment> \<open>a decimal literal\<close>
  "js_lit d = fl d"

definition js_sub :: "number \<Rightarrow> number \<Rightarrow> number" where
  "js_sub x y = fl (x - y)"

definition js_mul :: "number \<Rightarrow> number \<Rightarrow> number" where
  "js_mul x y = fl (x * y)"

definition js_div :: "number \<Rightarrow> number \<Rightarrow> number" where
  "js_div x y = fl (x / y)"

definition Math_round :: "number \<Rightarrow> int" where
  "Math_round x = \<lfloor>x + 1 / 2\<rfloor>"

definition LF :: char where
  "LF = CHR 0x0A"

definition isWhiteSpace :: "char \<Rightarrow> bool" where
  \<comment> \<open>the class \<open>\s\<close>, also what \<open>trim\<close> strips: TAB, LF, VT, FF, CR, SP, NBSP\<close>
  "isWhiteSpace c = (let n = (of_char c :: nat) in (9 \<le> n \<and> n \<le> 13) \<or> n = 32 \<or> n = 160)"

definition isLineTerminator :: "char \<Rightarrow> bool" where
  \<comment> \<open>the characters that \<open>.\<close> does not match: LF and CR\<close>
  "isLineTerminator c = (let n = (of_char c :: nat) in n = 10 \<or> n = 13)"

definition isLowerLetter :: "char \<Rightarrow> bool" where
  \<comment> \<open>the class \<open>[a-z]\<close>\<close>
  "isLowerLetter c = (let n = (of_char c :: nat) in 97 \<le> n \<and> n \<le> 122)"

definition isVowel :: "char \<Rightarrow> bool" where
  \<comment> \<open>the class \<open>[aeiouy]\<close>\<close>
  "isVowel c = (c \<in> set ''aeiouy'')"

definition isSentenceEnd :: "char \<Rightarrow> bool" where
  \<comment> \<open>the class \<open>[.!?]\<close>\<close>
  "isSentenceEnd c = (c \<in> set ''.!?'')"

definition toLowerChar :: "char \<Rightarrow> char" where
  \<comment> \<open>\<open>A-Z\<close> and the capital letters of Latin-1 (\<open>0xC0-0xDE\<close> without the sign \<open>0xD7\<close>)\<close>
  "toLowerChar c =
     (let n = (of_char c :: nat)
      in if (65 \<le> n \<and> n \<le> 90) \<or> (192 \<le> n \<and> n \<le> 222 \<and> n \<noteq> 215)
         then char_of (n + 32) else c)"

definition toLowerCase :: "string \<Rightarrow> string" where
  "toLowerCase s = map toLowerChar s"

definition trim :: "string \<Rightarrow> string" where
  "trim s = rev (dropWhile isWhiteSpace (rev (dropWhile isWhiteSpace s)))"

fun String_includes :: "string \<Rightarrow> string \<Rightarrow> bool" where
  \<comment> \<open>\<open>s.includes(t)\<close>: \<open>t\<close> starts at some position of \<open>s\<close>\<close>
  "String_includes [] t = (t = [])"
| "String_includes (c # cs) t = (prefix t (c # cs) \<or> String_includes cs t)"

subsection \<open>Regular expressions\<close>

text \<open>
  A pattern is a matcher: given the rest of the input at the current position it returns
  the length of its match there, or \<open>None\<close>. Patterns are composed with continuations, as
  in the language definition: \<open>lit t k\<close> is the literal \<open>t\<close> followed by \<open>k\<close>, \<open>lazy_dot k\<close>
  is \<open>.*?\<close> followed by \<open>k\<close> (the shortest extension first, never across a line
  terminator), \<open>class_plus P\<close> is a greedy \<open>[P]+\<close> at the end of a pattern.
\<close>

type_synonym matcher = "string \<Rightarrow> nat option"

definition accept :: matcher where
  "accept s = Some 0"

definition lit :: "string \<Rightarrow> matcher \<Rightarrow> matcher" where
  "lit t k s =
     (if prefix t s then map_option (\<lambda>n. length t + n) (k (drop (length t) s)) else None)"

fun lazy_dot :: "matcher \<Rightarrow> matcher" where
  "lazy_dot k [] = k []"
| "lazy_dot k (c # cs) =
     (case k (c # cs) of
        Some n \<Rightarrow> Some n
      | None \<Rightarrow> if isLineTerminator c then None else map_option Suc (lazy_dot k cs))"

definition class_plus :: "(char \<Rightarrow> bool) \<Rightarrow> matcher" where
  "class_plus P s = (let n = length (takeWhile P s) in if 1 \<le> n then Some n else None)"

text \<open>
  \<open>s.match(re)\<close> for a global \<open>re\<close>: all matches from left to right, each search starting
  where the previous match ended (one further after an empty match); \<open>null\<close> when there
  is none.
\<close>

function match_all :: "matcher \<Rightarrow> string \<Rightarrow> string list" where
  "match_all m [] = (case m [] of None \<Rightarrow> [] | Some n \<Rightarrow> [[]])"
| "match_all m (c # cs) =
     (case m (c # cs) of
        None \<Rightarrow> match_all m cs
      | Some n \<Rightarrow> take n (c # cs) # match_all m (drop (max 1 n) (c # cs)))"
  by pat_completeness auto
termination
  by (relation "measure (\<lambda>(m, s). length s)") auto

definition String_match :: "matcher \<Rightarrow> string \<Rightarrow> string list option" where
  "String_match m s = (case match_all m s of [] \<Rightarrow> None | x # xs \<Rightarrow> Some (x # xs))"

text \<open>
  \<open>s.split(re)\<close>: \<open>cur\<close> is the text since the end of the last separator, the last
  argument the input from the current position on. A match that ends where the last
  separator ended is skipped; the text after the last separator closes the result.
\<close>

function split_loop :: "matcher \<Rightarrow> string \<Rightarrow> string \<Rightarrow> string list" where
  "split_loop m cur [] = [cur]"
| "split_loop m cur (c # cs) =
     (case m (c # cs) of
        None \<Rightarrow> split_loop m (cur @ [c]) cs
      | Some n \<Rightarrow>
          if n = 0 \<and> cur = [] then split_loop m (cur @ [c]) cs
          else cur # split_loop m [] (drop n (c # cs)))"
  by pat_completeness auto
termination
  by (relation "measure (\<lambda>(m, cur, s). 2 * length s + (if cur = [] then 0 else 1))") auto

definition String_split :: "matcher \<Rightarrow> string \<Rightarrow> string list" where
  "String_split m s =
     (if s = [] then (case m [] of None \<Rightarrow> [[]] | Some n \<Rightarrow> []) else split_loop m [] s)"

definition whitespace_run :: matcher where
  \<comment> \<open>\<open>/\s+/\<close>\<close>
  "whitespace_run = class_plus isWhiteSpace"

definition blank_lines :: matcher where
  \<comment> \<open>\<open>/\n\n+/\<close>\<close>
  "blank_lines = lit [LF] (class_plus (\<lambda>c. c = LF))"

definition sentence_end_run :: matcher where
  \<comment> \<open>\<open>/[.!?]+/\<close>\<close>
  "sentence_end_run = class_plus isSentenceEnd"

definition vowel_run :: matcher where
  \<comment> \<open>\<open>/[aeiouy]+/\<close>\<close>
  "vowel_run = class_plus isVowel"

definition markdown_image :: matcher where
  \<comment> \<open>\<open>/!\[.*?\]\(.*?\)/\<close>\<close>
  "markdown_image = lit ''!['' (lazy_dot (lit '']('' (lazy_dot (lit '')'' accept))))"

section \<open>Readability scorer\<close>

text \<open>
  \<open>countSyllables\<close> and \<open>calculateReadability\<close> of the generator module. The words whose
  syllables are counted are the pieces of the lower-cased text in which every character
  outside \<open>a-z\<close> has been replaced by a space.
\<close>

definition countSyllables :: "string \<Rightarrow> nat" where
  "countSyllables text =
     foldl (\<lambda>acc word.
              if length word \<le> 3 then acc + 1
              else let syllableMatches = String_match vowel_run word
                   in acc + max 1 (case syllableMatches of Some ms \<Rightarrow> length ms | None \<Rightarrow> 1))
       0
       (filter (\<lambda>word. length word > 0)
          (String_split whitespace_run
             (map (\<lambda>c. if isLowerLetter c then c else CHR '' '') (toLowerCase text))))"

definition calculateReadability :: "string \<Rightarrow> int" where
  "calculateReadability text =
     (let sentences = filter (\<lambda>s. length (trim s) > 0) (String_split sentence_end_run text);
          words = filter (\<lambda>w. length w > 0) (String_split whitespace_run text);
          syllables = countSyllables text
      in if length sentences = 0 \<or> length words = 0 then 0
         else let avgSentenceLength = js_div (of_nat (length words)) (of_nat (length sentences));
                  avgSyllablesPerWord = js_div (of_nat syllables) (of_nat (length words));
                  score = js_sub (js_sub (js_lit 206.835)
                                    (js_mul (js_lit 1.015) avgSentenceLength))
                            (js_mul (js_lit 84.6) avgSyllablesPerWord)
              in max 0 (min 100 (Math_round score)))"

section \<open>Keyword metrics\<close>

definition TARGET_KEYWORD_DENSITY_min :: number where "TARGET_KEYWORD_DENSITY_min = 1"
definition TARGET_KEYWORD_DENSITY_max :: number where "TARGET_KEYWORD_DENSITY_max = 3"
definition TARGET_TITLE_LENGTH_min :: nat where "TARGET_TITLE_LENGTH_min = 30"
definition TARGET_TITLE_LENGTH_max :: nat where "TARGET_TITLE_LENGTH_max = 60"
definition TARGET_META_DESCRIPTION_LENGTH_min :: nat where "TARGET_META_DESCRIPTION_LENGTH_min = 120"
definition TARGET_META_DESCRIPTION_LENGTH_max :: nat where "TARGET_META_DESCRIPTION_LENGTH_max = 160"
definition TARGET_WORD_COUNT :: number where "TARGET_WORD_COUNT = 2000"
definition TARGET_INTERNAL_LINKS_min :: nat where "TARGET_INTERNAL_LINKS_min = 3"
definition TARGET_INTERNAL_LINKS_max :: nat where "TARGET_INTERNAL_LINKS_max = 7"
definition TARGET_EXTERNAL_LINKS_min :: nat where "TARGET_EXTERNAL_LINKS_min = 3"
definition TARGET_READABILITY_SCORE :: number where "TARGET_READABILITY_SCORE = 60"

definition calculateKeywordDensity :: "string \<Rightarrow> string \<Rightarrow> number" where
  "calculateKeywordDensity content keyword =
     (let words = filter (\<lambda>w. length w > 0) (String_split whitespace_run (toLowerCase content));
          keywordLower = toLowerCase keyword;
          keywordMatches = length (filter (\<lambda>w. String_includes w keywordLower) words)
      in if length words = 0 then 0
         else js_div
                (of_int (Math_round
                   (js_mul (js_mul (js_div (of_nat keywordMatches) (of_nat (length words))) 100)
                      100)))
                100)"

definition checkKeywordDensity :: "string \<Rightarrow> string \<Rightarrow> bool" where
  "checkKeywordDensity content keyword =
     (let density = calculateKeywordDensity content keyword
      in density \<ge> TARGET_KEYWORD_DENSITY_min \<and> density \<le> TARGET_KEYWORD_DENSITY_max)"

text \<open>
  \<open>content.split(/\n\n+/)[0] || content\<close>: the element at index 0, replaced by the whole
  content when it is \<open>undefined\<close> (no such element) or the empty string.
\<close>

definition checkKeywordInFirstParagraph :: "string \<Rightarrow> string \<Rightarrow> bool" where
  "checkKeywordInFirstParagraph content keyword =
     (let firstParagraph =
            (case String_split blank_lines content of
               [] \<Rightarrow> content
             | p # ps \<Rightarrow> if p = [] then content else p)
      in String_includes (toLowerCase firstParagraph) (toLowerCase keyword))"

section \<open>Structural validator\<close>

record heading =
  level :: number
  "text" :: string

fun hierarchy_loop :: "number \<Rightarrow> heading list \<Rightarrow> bool" where
  "hierarchy_loop previousLevel [] = True"
| "hierarchy_loop previousLevel (h # hs) =
     (if level h > previousLevel + 1 then False else hierarchy_loop (level h) hs)"

definition validateHeadingStructure :: "heading list \<Rightarrow> bool" where
  "validateHeadingStructure headings =
     (if length headings = 0 then False
      else let hasH1 = list_ex (\<lambda>h. level h = 1) headings
           in if \<not> hasH1 then False else hierarchy_loop 1 headings)"

section \<open>Rule aggregator\<close>

record SEOChecks =
  keywordDensity :: bool
  keywordInTitle :: bool
  keywordInMetaDescription :: bool
  keywordInH1 :: bool
  keywordInFirstParagraph :: bool
  titleLength :: bool
  metaDescriptionLength :: bool
  headingStructure :: bool
  internalLinkCount :: bool
  externalLinkCount :: bool
  wordCount :: bool
  readabilityScore :: bool
  hasFAQs :: bool
  hasCallToAction :: bool
  hasImages :: bool
  imageAltTags :: bool

text \<open>
  The messages of \<open>generateRecommendations\<close>, one constructor for each template, carrying
  the values the template interpolates (the keyword, the density):
  \<^item> \<open>AddMoreMentions k d\<close>: Add more mentions of "k" naturally (currently d%, aim for 1-3%)
  \<^item> \<open>ReduceKeywordUsage d\<close>: Reduce keyword usage (currently d%, aim for 1-3%) to avoid
    keyword stuffing
  \<^item> \<open>KeywordInTitleMsg k\<close>: Include your keyword "k" in the title
  \<^item> \<open>KeywordInMetaMsg k\<close>: Add your keyword "k" to the meta description
  \<^item> \<open>KeywordInH1Msg\<close>: Include your keyword in the main H1 heading
  \<^item> \<open>FirstParagraphMsg k\<close>: Mention "k" in the first paragraph for better SEO
  \<^item> \<open>TitleLengthMsg\<close>: Optimize title length (30-60 characters)
  \<^item> \<open>MetaLengthMsg\<close>: Adjust meta description to 120-160 characters for optimal display
  \<^item> \<open>HeadingStructureMsg\<close>: Fix heading structure: Use H1, H2, H3 hierarchy without
    skipping levels
  \<^item> \<open>InternalLinksMsg lo hi\<close>: Add lo-hi internal links to related content
  \<^item> \<open>ExternalLinksMsg lo\<close>: Include at least lo authoritative external links
  \<^item> \<open>WordCountMsg n\<close>: Expand content to at least n words for better rankings
  \<^item> \<open>ReadabilityMsg n\<close>: Improve readability (aim for score of n+). Use shorter
    sentences and simpler words.
  \<^item> \<open>FAQMsg\<close>: Add an FAQ section with at least 3 common questions
  \<^item> \<open>CallToActionMsg\<close>: Add a clear call-to-action at the end of the post
  \<^item> \<open>ImagesMsg\<close>: Add relevant images to make the content more engaging
  \<^item> \<open>AltTextMsg\<close>: Ensure all images have descriptive alt text for accessibility and SEO
\<close>

datatype recommendation =
    AddMoreMentions string number
  | ReduceKeywordUsage number
  | KeywordInTitleMsg string
  | KeywordInMetaMsg string
  | KeywordInH1Msg
  | FirstParagraphMsg string
  | TitleLengthMsg
  | MetaLengthMsg
  | HeadingStructureMsg
  | InternalLinksMsg number number
  | ExternalLinksMsg number
  | WordCountMsg number
  | ReadabilityMsg number
  | FAQMsg
  | CallToActionMsg
  | ImagesMsg
  | AltTextMsg

text \<open>\<open>if (!checks.x) recommendations.push(msg)\<close>\<close>

definition push_unless :: "bool \<Rightarrow> 'a \<Rightarrow> 'a list \<Rightarrow> 'a list" where
  "push_unless ok msg recs = (if \<not> ok then recs @ [msg] else recs)"

definition generateRecommendations :: "SEOChecks \<Rightarrow> number \<Rightarrow> string \<Rightarrow> recommendation list" where
  "generateRecommendations checks density keyword =
     (let recs = [];
          recs = push_unless (SEOChecks.keywordDensity checks)
                   (if density < TARGET_KEYWORD_DENSITY_min then AddMoreMentions keyword density
                    else ReduceKeywordUsage density) recs;
          recs = push_unless (keywordInTitle checks) (KeywordInTitleMsg keyword) recs;
          recs = push_unless (keywordInMetaDescription checks) (KeywordInMetaMsg keyword) recs;
          recs = push_unless (keywordInH1 checks) KeywordInH1Msg recs;
          recs = push_unless (keywordInFirstParagraph checks) (FirstParagraphMsg keyword) recs;
          recs = push_unless (titleLength checks) TitleLengthMsg recs;
          recs = push_unless (metaDescriptionLength checks) MetaLengthMsg recs;
          recs = push_unless (headingStructure checks) HeadingStructureMsg recs;
          recs = push_unless (internalLinkCount checks)
                   (InternalLinksMsg (of_nat TARGET_INTERNAL_LINKS_min)
                      (of_nat TARGET_INTERNAL_LINKS_max)) recs;
          recs = push_unless (externalLinkCount checks)
                   (ExternalLinksMsg (of_nat TARGET_EXTERNAL_LINKS_min)) recs;
          recs = push_unless (SEOChecks.wordCount checks) (WordCountMsg TARGET_WORD_COUNT) recs;
          recs = push_unless (SEOChecks.readabilityScore checks)
                   (ReadabilityMsg TARGET_READABILITY_SCORE) recs;
          recs = push_unless (hasFAQs checks) FAQMsg recs;
          recs = push_unless (hasCallToAction checks) CallToActionMsg recs;
          recs = push_unless (hasImages checks) ImagesMsg recs;
          recs = push_unless (imageAltTags checks) AltTextMsg recs
      in recs)"

text \<open>
  \<open>Object.keys\<close> and \<open>Object.values\<close> of the checks object: its properties in the order
  the object literal of \<open>analyzeSEO\<close> creates them.
\<close>

definition Object_keys :: "SEOChecks \<Rightarrow> string list" where
  "Object_keys checks =
     [''keywordDensity'', ''keywordInTitle'', ''keywordInMetaDescription'', ''keywordInH1'',
      ''keywordInFirstParagraph'', ''titleLength'', ''metaDescriptionLength'',
      ''headingStructure'', ''internalLinkCount'', ''externalLinkCount'', ''wordCount'',
      ''readabilityScore'', ''hasFAQs'', ''hasCallToAction'', ''hasImages'', ''imageAltTags'']"

definition Object_values :: "SEOChecks \<Rightarrow> bool list" where
  "Object_values checks =
     [SEOChecks.keywordDensity checks, keywordInTitle checks, keywordInMetaDescription checks,
      keywordInH1 checks, keywordInFirstParagraph checks, titleLength checks, metaDescriptionLength checks,
      headingStructure checks, internalLinkCount checks, externalLinkCount checks, SEOChecks.wordCount checks,
      SEOChecks.readabilityScore checks, hasFAQs checks, hasCallToAction checks, hasImages checks,
      imageAltTags checks]"

definition calculateSEOScore :: "SEOChecks \<Rightarrow> int" where
  "calculateSEOScore checks =
     (let totalChecks = length (Object_keys checks);
          passedChecks = length (filter (\<lambda>v. v) (Object_values checks))
      in Math_round (js_mul (js_div (of_nat passedChecks) (of_nat totalChecks)) 100))"

record faq =
  question :: string
  answer :: string

record external_link =
  url :: string
  "text" :: string

section \<open>Generation adapter\<close>

text \<open>
  The object the language model returns (the schema \<open>blogPostSchema\<close>), and the post
  \<open>generateBlogPost\<close> makes of it.
\<close>

record blog_object =
  title :: string
  slug :: string
  metaTitle :: string
  metaDescription :: string
  content :: string
  headings :: "heading list"
  faqs :: "faq list"
  internalLinks :: "string list"
  externalLinks :: "external_link list"
  wordCount :: number
  readabilityScore :: number

record generated_post = blog_object +
  generatedAt :: string

record blog_post_params =
  topic :: string
  keyword :: string
  tone :: "string option"
  audience :: "string option"
  includeData :: "bool option"
  wordCount :: "number option"

text \<open>
  The model call \<open>generateObject\<close> and the clock are not code of this repository. The call
  is a parameter \<open>gen\<close>: from the values the prompt interpolates (topic, keyword, tone,
  audience, includeData, wordCount) and the state \<open>w\<close> of the outside world it yields the
  object or the thrown error, and the next state. \<open>clock\<close> reads the time
  (\<open>new Date().toISOString()\<close>).
\<close>

type_synonym prompt_values = "string \<times> string \<times> string \<times> string \<times> bool \<times> number"

type_synonym ('e, 'w) model_call = "prompt_values \<Rightarrow> 'w \<Rightarrow> ('e + blog_object) \<times> 'w"

definition generateBlogPost ::
  "('e, 'w) model_call \<Rightarrow> ('w \<Rightarrow> string) \<Rightarrow> blog_post_params \<Rightarrow> 'w \<Rightarrow> ('e + generated_post) \<times> 'w"
where
  "generateBlogPost gen clock params w =
     (let prompt =
            (topic params,
             keyword params,
             (case tone params of None \<Rightarrow> ''professional'' | Some t \<Rightarrow> t),
             (case audience params of None \<Rightarrow> ''general audience'' | Some a \<Rightarrow> a),
             (case includeData params of None \<Rightarrow> True | Some b \<Rightarrow> b),
             (case blog_post_params.wordCount params of None \<Rightarrow> 2000 | Some n \<Rightarrow> n))
      in case gen prompt w of
           (Inl error, w') \<Rightarrow> (Inl error, w')
         | (Inr object, w') \<Rightarrow>
             (Inr (blog_object.extend
                     (object\<lparr> readabilityScore := of_int (calculateReadability (content object)),
                              blog_object.wordCount :=
                                of_nat (length (String_split whitespace_run (content object))) \<rparr>)
                     (generated_post.fields (clock w'))),
              w'))"

record topic_item =
  topic :: string
  keyword :: string
  tone :: "string option"

record bulk_params =
  topics :: "topic_item list"
  audience :: "string option"
  includeData :: "bool option"

text \<open>
  An element of the list \<open>generateBulkPosts\<close> returns: \<open>{ success: true, post }\<close> or
  \<open>{ success: false, topic, error }\<close>.
\<close>

datatype ('e, 'p) bulk_result = Success 'p | Failure string 'e

text \<open>
  The argument \<open>generateBulkPosts\<close> passes to \<open>generateBlogPost\<close> for one topic, with the tone
  \<open>item.tone || 'professional'\<close> (an absent or empty tone gives the default), and the body
  of the loop: the call inside \<open>try\<close>, and the element pushed in either case.
\<close>

definition item_params :: "string \<Rightarrow> bool \<Rightarrow> topic_item \<Rightarrow> blog_post_params" where
  "item_params aud incl item =
     \<lparr> blog_post_params.topic = topic item,
       blog_post_params.keyword = keyword item,
       blog_post_params.tone =
         Some (case tone item of
                 None \<Rightarrow> ''professional''
               | Some t \<Rightarrow> if t = [] then ''professional'' else t),
       blog_post_params.audience = Some aud,
       blog_post_params.includeData = Some incl,
       blog_post_params.wordCount = None \<rparr>"

definition bulk_item ::
  "('e, 'w) model_call \<Rightarrow> ('w \<Rightarrow> string) \<Rightarrow> string \<Rightarrow> bool \<Rightarrow> topic_item \<Rightarrow> 'w
     \<Rightarrow> ('e, generated_post) bulk_result \<times> 'w"
where
  "bulk_item gen clock aud incl item w =
     (case generateBlogPost gen clock (item_params aud incl item) w of
        (Inr post, w') \<Rightarrow> (Success post, w')
      | (Inl error, w') \<Rightarrow> (Failure (topic item) error, w'))"

fun bulk_loop ::
  "('e, 'w) model_call \<Rightarrow> ('w \<Rightarrow> string) \<Rightarrow> string \<Rightarrow> bool
     \<Rightarrow> ('e, generated_post) bulk_result list \<Rightarrow> topic_item list \<Rightarrow> 'w
     \<Rightarrow> ('e, generated_post) bulk_result list \<times> 'w"
where
  "bulk_loop gen clock aud incl posts [] w = (posts, w)"
| "bulk_loop gen clock aud incl posts (item # items) w =
     (case bulk_item gen clock aud incl item w of
        (r, w') \<Rightarrow> bulk_loop gen clock aud incl (posts @ [r]) items w')"

definition generateBulkPosts ::
  "('e, 'w) model_call \<Rightarrow> ('w \<Rightarrow> string) \<Rightarrow> bulk_params \<Rightarrow> 'w
     \<Rightarrow> ('e, generated_post) bulk_result list \<times> 'w"
where
  "generateBulkPosts gen clock params w =
     (let aud = (case audience params of None \<Rightarrow> ''general audience'' | Some a \<Rightarrow> a);
          incl = (case includeData params of None \<Rightarrow> True | Some b \<Rightarrow> b)
      in bulk_loop gen clock aud incl [] (topics params) w)"

section \<open>The analysis\<close>

text \<open>The argument of \<open>analyzeSEO\<close>; an optional property that is absent is \<open>None\<close>.\<close>

record seo_params =
  content :: string
  title :: string
  metaDescription :: "string option"
  keyword :: string
  headings :: "heading list"
  wordCount :: number
  readabilityScore :: number
  faqs :: "faq list option"
  internalLinks :: "string list option"
  externalLinks :: "external_link list option"

record SEOAnalysis =
  score :: int
  checks :: SEOChecks
  recommendations :: "recommendation list"
  keywordDensity :: number

text \<open>
  \<open>content.match(re)?.length > 0\<close>: \<open>null?.length\<close> is \<open>undefined\<close>, and
  \<open>undefined > 0\<close> is \<open>false\<close>.
\<close>

definition analyzeSEO :: "seo_params \<Rightarrow> SEOAnalysis" where
  "analyzeSEO params =
     (let content = content params;
          title = title params;
          metaDescription = (case metaDescription params of None \<Rightarrow> [] | Some m \<Rightarrow> m);
          keyword = keyword params;
          headings = headings params;
          wordCount = seo_params.wordCount params;
          readabilityScore = seo_params.readabilityScore params;
          faqs = (case faqs params of None \<Rightarrow> [] | Some f \<Rightarrow> f);
          internalLinks = (case internalLinks params of None \<Rightarrow> [] | Some l \<Rightarrow> l);
          externalLinks = (case externalLinks params of None \<Rightarrow> [] | Some l \<Rightarrow> l);
          cs = \<lparr> SEOChecks.keywordDensity = checkKeywordDensity content keyword,
                 keywordInTitle = String_includes (toLowerCase title) (toLowerCase keyword),
                 keywordInMetaDescription =
                   String_includes (toLowerCase metaDescription) (toLowerCase keyword),
                 keywordInH1 =
                   list_ex (\<lambda>h. level h = 1
                              \<and> String_includes (toLowerCase (heading.text h)) (toLowerCase keyword))
                     headings,
                 keywordInFirstParagraph = checkKeywordInFirstParagraph content keyword,
                 titleLength = (length title \<ge> TARGET_TITLE_LENGTH_min
                                \<and> length title \<le> TARGET_TITLE_LENGTH_max),
                 metaDescriptionLength =
                   (length metaDescription \<ge> TARGET_META_DESCRIPTION_LENGTH_min
                    \<and> length metaDescription \<le> TARGET_META_DESCRIPTION_LENGTH_max),
                 headingStructure = validateHeadingStructure headings,
                 internalLinkCount = (length internalLinks \<ge> TARGET_INTERNAL_LINKS_min
                                      \<and> length internalLinks \<le> TARGET_INTERNAL_LINKS_max),
                 externalLinkCount = (length externalLinks \<ge> TARGET_EXTERNAL_LINKS_min),
                 SEOChecks.wordCount = (wordCount \<ge> TARGET_WORD_COUNT),
                 SEOChecks.readabilityScore = (readabilityScore \<ge> TARGET_READABILITY_SCORE),
                 hasFAQs = (length faqs \<ge> 3),
                 hasCallToAction =
                   (String_includes (toLowerCase content) ''cta''
                    \<or> String_includes (toLowerCase content) ''call to action''
                    \<or> String_includes (toLowerCase content) ''get started''
                    \<or> String_includes (toLowerCase content) ''learn more''),
                 hasImages = (String_includes content ''<img'' \<or> String_includes content ''![''),
                 imageAltTags =
                   (String_includes content ''alt=''
                    \<or> (case String_match markdown_image content of
                          None \<Rightarrow> False
                        | Some ms \<Rightarrow> length ms > 0)) \<rparr>;
          density = calculateKeywordDensity content keyword;
          recs = generateRecommendations cs density keyword;
          total = calculateSEOScore cs
      in \<lparr> score = total, checks = cs, recommendations = recs, keywordDensity = density \<rparr>)"

section \<open>Definitions in the words of the specification\<close>

text \<open>
  The table of messages, one for each check in the order the checks are declared, and the
  messages of the checks that failed, in the order of the table.
\<close>

definition check_messages :: "number \<Rightarrow> string \<Rightarrow> recommendation list" where
  "check_messages density kw =
     [if density < 1 then AddMoreMentions kw density else ReduceKeywordUsage density,
      KeywordInTitleMsg kw, KeywordInMetaMsg kw, KeywordInH1Msg, FirstParagraphMsg kw,
      TitleLengthMsg, MetaLengthMsg, HeadingStructureMsg, InternalLinksMsg 3 7,
      ExternalLinksMsg 3, WordCountMsg 2000, ReadabilityMsg 60, FAQMsg, CallToActionMsg,
      ImagesMsg, AltTextMsg]"

definition failed_messages :: "bool list \<Rightarrow> 'a list \<Rightarrow> 'a list" where
  "failed_messages vals msgs = map snd (filter (\<lambda>(ok, msg). \<not> ok) (zip vals msgs))"

text \<open>
  The non-empty pieces of a string between separators: the whitespace-delimited tokens when
  the separators are the whitespace characters.
\<close>

function tokens :: "(char \<Rightarrow> bool) \<Rightarrow> string \<Rightarrow> string list" where
  "tokens sep [] = []"
| "tokens sep (c # cs) =
     (if sep c then tokens sep cs
      else (c # takeWhile (\<lambda>x. \<not> sep x) cs) # tokens sep (dropWhile (\<lambda>x. \<not> sep x) cs))"
  by pat_completeness auto
termination
  by (relation "measure (\<lambda>(sep, s). length s)")
    (auto simp add: le_imp_less_Suc length_dropWhile_le)

text \<open>
  The tokens of a content for the keyword density, and the number of them that hold the
  keyword.
\<close>

definition content_tokens :: "string \<Rightarrow> string list" where
  "content_tokens c = tokens isWhiteSpace (toLowerCase c)"

definition keyword_matches :: "string \<Rightarrow> string \<Rightarrow> nat" where
  "keyword_matches c k = length (filter (sublist (toLowerCase k)) (content_tokens c))"

text \<open>
  The density in the words of the specification: the share of the tokens that hold the
  keyword, as a percentage rounded to two decimals, that is the number of hundredths nearest
  to the exact percentage (a tie going up), over 100; 0 when there is no token.
  \<open>density_hundredths\<close> is the number of hundredths that the double-precision computation
  reaches instead.
\<close>

definition exact_hundredths :: "string \<Rightarrow> string \<Rightarrow> rat" where
  "exact_hundredths c k =
     of_nat (keyword_matches c k) / of_nat (length (content_tokens c)) * 100 * 100"

definition claimed_density :: "string \<Rightarrow> string \<Rightarrow> number" where
  "claimed_density c k =
     (if content_tokens c = [] then 0
      else js_div (of_int (round (exact_hundredths c k))) 100)"

definition density_hundredths :: "string \<Rightarrow> string \<Rightarrow> int" where
  "density_hundredths c k =
     Math_round
       (js_mul (js_mul (js_div (of_nat (keyword_matches c k))
                          (of_nat (length (content_tokens c)))) 100) 100)"

text \<open>
  The first segment of a text split on one or more blank lines: the text before the first
  two consecutive line feeds, the whole text when there are none.
\<close>

fun before_blank_line :: "string \<Rightarrow> string" where
  "before_blank_line (a # b # cs) =
     (if a = LF \<and> b = LF then [] else a # before_blank_line (b # cs))"
| "before_blank_line cs = cs"

text \<open>
  The first-paragraph check as the specification words it: the keyword, lower-cased, occurs
  in the lower-cased first segment.
\<close>

definition claimed_inFirstParagraph :: "string \<Rightarrow> string \<Rightarrow> bool" where
  "claimed_inFirstParagraph c kw = sublist (toLowerCase kw) (toLowerCase (before_blank_line c))"

text \<open>
  The readability score in the words of the specification. The syllables of a word: 1 for a
  word of at most three letters, otherwise the number of its runs of vowels, at least 1. The
  words whose syllables are counted: the runs of letters \<open>a-z\<close> of the lower-cased text. The
  sentences: the pieces between runs of \<open>. ! ?\<close> that are not blank. The words: the
  whitespace-delimited tokens. The Flesch value of \<open>S\<close> sentences, \<open>W\<close> words and \<open>Y\<close>
  syllables is \<open>flesch_exact\<close>; \<open>flesch\<close> clamps it to \<open>[0, 100]\<close> and then rounds it, and is 0
  when there is no sentence or no word. \<open>flesch_double\<close> is the value that the
  double-precision computation reaches instead, and \<open>flesch_error\<close> bounds the distance
  between the two.
\<close>

definition syllables_of :: "string \<Rightarrow> nat" where
  "syllables_of word =
     (if length word \<le> 3 then 1 else max 1 (length (tokens (\<lambda>c. \<not> isVowel c) word)))"

definition letter_words :: "string \<Rightarrow> string list" where
  "letter_words t = tokens (\<lambda>c. \<not> isLowerLetter c) (toLowerCase t)"

definition sentence_count :: "string \<Rightarrow> nat" where
  "sentence_count t =
     length (filter (\<lambda>s. \<not> list_all isWhiteSpace s) (tokens isSentenceEnd t))"

definition word_count :: "string \<Rightarrow> nat" where
  "word_count t = length (tokens isWhiteSpace t)"

definition syllable_count :: "string \<Rightarrow> nat" where
  "syllable_count t = sum_list (map syllables_of (letter_words t))"

definition flesch_exact :: "nat \<Rightarrow> nat \<Rightarrow> nat \<Rightarrow> rat" where
  "flesch_exact S W Y = 206.835 - 1.015 * (of_nat W / of_nat S) - 84.6 * (of_nat Y / of_nat W)"

definition flesch :: "nat \<Rightarrow> nat \<Rightarrow> nat \<Rightarrow> int" where
  "flesch S W Y =
     (if S = 0 \<or> W = 0 then 0 else round (max 0 (min 100 (flesch_exact S W Y))))"

definition claimed_readability :: "string \<Rightarrow> int" where
  "claimed_readability t = flesch (sentence_count t) (word_count t) (syllable_count t)"

definition flesch_double :: "nat \<Rightarrow> nat \<Rightarrow> nat \<Rightarrow> number" where
  "flesch_double S W Y =
     js_sub (js_sub (js_lit 206.835) (js_mul (js_lit 1.015) (js_div (of_nat W) (of_nat S))))
       (js_mul (js_lit 84.6) (js_div (of_nat Y) (of_nat W)))"

definition flesch_error :: "nat \<Rightarrow> nat \<Rightarrow> nat \<Rightarrow> rat" where
  "flesch_error S W Y =
     (206.835 + 1.015 * (of_nat W / of_nat S) + 84.6 * (of_nat Y / of_nat W)) / 2 ^ 50"

section \<open>Sample inputs\<close>

definition sample_content :: string where
  "sample_content =
     ''Good seo helps.'' @ [LF, LF] @
     ''Learn more here: ![chart](chart.png) Search traffic grows when pages answer real '' @
     ''questions with clear words and useful links so write short lines and keep each '' @
     ''page on one topic then check titles and headings and add links to related pages '' @
     ''before you publish the post right away''"

definition sample_artifact :: seo_params where
  "sample_artifact =
     \<lparr> content = sample_content,
       title = ''Practical SEO guide for small business owners'',
       metaDescription = Some
         (''Learn how SEO works for small business sites: keywords, titles, links and '' @
          ''content that ranks, explained in simple steps you can apply today.''),
       keyword = ''seo'',
       headings = [\<lparr> level = 1, text = ''SEO for small business'' \<rparr>,
                   \<lparr> level = 2, text = ''Where to start'' \<rparr>],
       wordCount = 2200,
       readabilityScore = 70,
       faqs = Some [\<lparr> question = ''What is it?'', answer = ''Search work.'' \<rparr>,
                    \<lparr> question = ''Is it slow?'', answer = ''It takes months.'' \<rparr>,
                    \<lparr> question = ''Is it free?'', answer = ''Mostly.'' \<rparr>],
       internalLinks = Some [''/a'', ''/b'', ''/c'', ''/d'', ''/e''],
       externalLinks = Some [\<lparr> url = ''https://a.example'', text = ''A'' \<rparr>,
                             \<lparr> url = ''https://b.example'', text = ''B'' \<rparr>,
                             \<lparr> url = ''https://c.example'', text = ''C'' \<rparr>,
                             \<lparr> url = ''https://d.example'', text = ''D'' \<rparr>] \<rparr>"

definition empty_artifact :: "string \<Rightarrow> string \<Rightarrow> number \<Rightarrow> seo_params" where
  "empty_artifact t kw r =
     \<lparr> content = [], title = t, metaDescription = None, keyword = kw, headings = [],
       wordCount = 0, readabilityScore = r, faqs = None, internalLinks = None,
       externalLinks = None \<rparr>"

text \<open>
  A model that fails on its second call (the state of the world counts the calls), and three
  topics for it.
\<close>

definition sample_object :: "string \<Rightarrow> blog_object" where
  "sample_object t =
     \<lparr> blog_object.title = t, slug = ''post'', metaTitle = t, blog_object.metaDescription = [],
       blog_object.content = ''Cat sat.'', blog_object.headings = [], blog_object.faqs = [],
       blog_object.internalLinks = [], blog_object.externalLinks = [],
       blog_object.wordCount = 0, blog_object.readabilityScore = 0 \<rparr>"

definition sample_model :: "(string, nat) model_call" where
  "sample_model prompt w =
     (if w = 1 then (Inl ''model unavailable'', Suc w)
      else (Inr (sample_object (fst prompt)), Suc w))"

definition sample_topics :: "topic_item list" where
  "sample_topics =
     [\<lparr> topic = ''first'', keyword = ''k1'', tone = None \<rparr>,
      \<lparr> topic = ''second'', keyword = ''k2'', tone = Some ''casual'' \<rparr>,
      \<lparr> topic = ''third'', keyword = ''k3'', tone = Some [] \<rparr>]"

text \<open>
  A content of 160 tokens of which 23 hold the keyword, and a text of 14 sentences, 520
  words and 637 syllables.
\<close>

definition tie_content :: string where
  "tie_content = concat (replicate 23 ''seo '') @ concat (replicate 137 ''page '')"

definition tie_text :: string where
  "tie_text =
     concat (replicate 13 '' hello.'') @ concat (replicate 104 '' hello'') @
     concat (replicate 402 '' is'') @ '' is.''"

definition sample_clock :: "nat \<Rightarrow> string" where
  "sample_clock w = ''2025-01-01T00:00:00.000Z''"

definition sample_bulk :: bulk_params where
  "sample_bulk = \<lparr> topics = sample_topics, audience = None, includeData = None \<rparr>"

section \<open>Double-precision arithmetic\<close>

lemma round_even_err: "\<bar>of_int (round_even y) - y\<bar> \<le> 1 / 2"
proof -
  have b: "of_int \<lfloor>y\<rfloor> \<le> y" "y < of_int \<lfloor>y\<rfloor> + 1" by linarith+
  consider "y - of_int \<lfloor>y\<rfloor> < 1 / 2" | "1 / 2 < y - of_int \<lfloor>y\<rfloor>"
    | "y - of_int \<lfloor>y\<rfloor> = 1 / 2" by linarith
  then show ?thesis
  proof cases
    case 1
    then have "round_even y = \<lfloor>y\<rfloor>" by (simp add: round_even_def Let_def)
    then show ?thesis using 1 b by (simp add: abs_le_iff)
  next
    case 2
    then have "round_even y = \<lfloor>y\<rfloor> + 1" by (simp add: round_even_def Let_def)
    then show ?thesis using 2 b by (simp add: abs_le_iff)
  next
    case 3
    then have "round_even y = \<lfloor>y\<rfloor> \<or> round_even y = \<lfloor>y\<rfloor> + 1"
      by (simp add: round_even_def Let_def)
    then show ?thesis using 3 by (auto simp add: abs_le_iff)
  qed
qed

lemma round_even_nonneg: "0 \<le> y \<Longrightarrow> 0 \<le> round_even y"
  by (auto simp add: round_even_def Let_def)

lemma exponent_bounds:
  assumes "0 < a"
  shows "2 powi exponent a \<le> a" and "a < 2 powi (exponent a + 1)"
proof -
  obtain p q where pq: "quotient_of a = (p, q)" by (cases "quotient_of a")
  then have q: "0 < q" and a: "a = of_int p / of_int q"
    using quotient_of_denom_pos [OF pq] quotient_of_div [OF pq] by simp_all
  then have p: "0 < p" using assms by (simp add: zero_less_divide_iff)
  let ?d = "bitlen p - bitlen q"
  have bp: "2 ^ nat (bitlen p - 1) \<le> p" "p < 2 ^ nat (bitlen p)"
    using bitlen_bounds [OF p] by simp_all
  have bq: "2 ^ nat (bitlen q - 1) \<le> q" "q < 2 ^ nat (bitlen q)"
    using bitlen_bounds [OF q] by simp_all
  have np: "1 \<le> bitlen p" and nq: "1 \<le> bitlen q"
    using p q bitlen_eq_zero_iff [of p] bitlen_eq_zero_iff [of q] bitlen_nonneg [of p]
      bitlen_nonneg [of q] by linarith+
  have P1: "(2::rat) powi (bitlen p - 1) \<le> of_int p"
  proof -
    have "(2::rat) powi (bitlen p - 1) = 2 ^ nat (bitlen p - 1)"
      using np by (simp add: power_int_def)
    also have "\<dots> = of_int (2 ^ nat (bitlen p - 1))" by simp
    also have "\<dots> \<le> of_int p" using bp(1) by (simp only: of_int_le_iff)
    finally show ?thesis .
  qed
  have P2: "of_int p < (2::rat) powi (bitlen p)"
  proof -
    have "(of_int p :: rat) < of_int (2 ^ nat (bitlen p))" using bp(2) by (simp only: of_int_less_iff)
    also have "\<dots> = 2 powi (bitlen p)" using np by (simp add: power_int_def)
    finally show ?thesis .
  qed
  have Q1: "(2::rat) powi (bitlen q - 1) \<le> of_int q"
  proof -
    have "(2::rat) powi (bitlen q - 1) = 2 ^ nat (bitlen q - 1)"
      using nq by (simp add: power_int_def)
    also have "\<dots> = of_int (2 ^ nat (bitlen q - 1))" by simp
    also have "\<dots> \<le> of_int q" using bq(1) by (simp only: of_int_le_iff)
    finally show ?thesis .
  qed
  have Q2: "of_int q < (2::rat) powi (bitlen q)"
  proof -
    have "(of_int q :: rat) < of_int (2 ^ nat (bitlen q))" using bq(2) by (simp only: of_int_less_iff)
    also have "\<dots> = 2 powi (bitlen q)" using nq by (simp add: power_int_def)
    finally show ?thesis .
  qed
  have qpos: "(0::rat) < of_int q" using q by simp
  have lo: "(2::rat) powi (?d - 1) \<le> a"
  proof -
    have "(2::rat) powi (?d - 1) = 2 powi (bitlen p - 1) / 2 powi (bitlen q)"
    proof -
      have "?d - 1 = (bitlen p - 1) - bitlen q" by simp
      then have "(2::rat) powi (?d - 1) = 2 powi ((bitlen p - 1) - bitlen q)" by (rule arg_cong)
      also have "\<dots> = 2 powi (bitlen p - 1) / 2 powi (bitlen q)"
        by (rule power_int_diff) simp
      finally show ?thesis .
    qed
    also have "\<dots> \<le> of_int p / 2 powi (bitlen q)"
      using P1 by (simp add: divide_right_mono)
    also have "\<dots> \<le> of_int p / of_int q"
      using Q2 qpos p by (intro divide_left_mono) (simp_all add: less_imp_le)
    finally show ?thesis by (simp add: a)
  qed
  have hi: "a < (2::rat) powi (?d + 1)"
  proof -
    have "a = of_int p / of_int q" by (rule a)
    also have "\<dots> < 2 powi (bitlen p) / of_int q"
      using P2 qpos by (simp add: divide_strict_right_mono)
    also have "\<dots> \<le> 2 powi (bitlen p) / 2 powi (bitlen q - 1)"
      using Q1 qpos by (intro divide_left_mono) (simp_all add: zero_less_mult_iff)
    also have "\<dots> = 2 powi (?d + 1)"
    proof -
      have "?d + 1 = bitlen p - (bitlen q - 1)" by simp
      then have "(2::rat) powi (?d + 1) = 2 powi (bitlen p - (bitlen q - 1))" by (rule arg_cong)
      also have "\<dots> = 2 powi (bitlen p) / 2 powi (bitlen q - 1)"
        by (rule power_int_diff) simp
      finally show ?thesis by simp
    qed
    finally show ?thesis .
  qed
  have e: "exponent a = (if 2 powi ?d \<le> a then ?d else ?d - 1)"
    by (simp add: exponent_def pq Let_def)
  show "2 powi exponent a \<le> a"
    using lo by (simp add: e)
  show "a < 2 powi (exponent a + 1)"
    using hi by (simp add: e not_le)
qed

lemma fl_nonneg: "0 \<le> x \<Longrightarrow> 0 \<le> fl x"
proof (cases "x = 0")
  case True
  then show ?thesis by (simp add: fl_def)
next
  case False
  assume "0 \<le> x"
  with False have x: "0 < x" by simp
  let ?u = "(2::rat) powi (exponent x - 52)"
  have "0 \<le> x / ?u" using x by simp
  then have "0 \<le> round_even (x / ?u)" by (rule round_even_nonneg)
  then have "0 \<le> (of_int (round_even (x / ?u)) :: rat) * ?u" by simp
  then show ?thesis using x by (simp add: fl_def Let_def)
qed

lemma fl_err: "\<bar>fl x - x\<bar> \<le> \<bar>x\<bar> / 2 ^ 53"
proof (cases "x = 0")
  case True
  then show ?thesis by (simp add: fl_def)
next
  case False
  let ?a = "\<bar>x\<bar>"
  let ?u = "(2::rat) powi (exponent ?a - 52)"
  let ?r = "round_even (?a / ?u)"
  have a: "0 < ?a" using False by simp
  have u: "0 < ?u" by simp
  have f: "fl x = sgn x * (of_int ?r * ?u)"
    using False by (simp add: fl_def Let_def)
  have x: "x = sgn x * ?a" by (simp add: sgn_if)
  have "fl x - x = sgn x * (of_int ?r * ?u - ?a)"
    unfolding f by (subst (2) x) (simp only: right_diff_distrib)
  then have "\<bar>fl x - x\<bar> = \<bar>of_int ?r * ?u - ?a\<bar>"
    using False by (simp add: abs_mult sgn_if)
  also have "\<dots> = \<bar>of_int ?r - ?a / ?u\<bar> * ?u"
  proof -
    have "of_int ?r * ?u - ?a = (of_int ?r - ?a / ?u) * ?u"
      using u by (simp add: left_diff_distrib)
    then show ?thesis using u by (simp add: abs_mult)
  qed
  also have "\<dots> \<le> (1 / 2) * ?u"
    using round_even_err [of "?a / ?u"] u by (intro mult_right_mono) simp_all
  also have "\<dots> = 2 powi (exponent ?a) / 2 ^ 53"
  proof -
    have "?u = 2 powi (exponent ?a) / 2 powi 52"
      by (simp add: power_int_diff)
    then show ?thesis by simp
  qed
  also have "\<dots> \<le> ?a / 2 ^ 53"
    using exponent_bounds(1) [OF a] by (simp add: divide_right_mono)
  finally show ?thesis .
qed

lemma fl_small:
  "fl 1 = 1" "fl 100 = 100" "fl 10000 = 10000"
  by code_simp+

lemma score_arith_set:
  "\<forall>k\<in>set [0..<17]. js_mul (js_div (of_nat k) (of_nat 16)) 100 = of_nat k / 16 * 100"
  by code_simp

lemma score_arith:
  assumes "k \<le> 16"
  shows "js_mul (js_div (of_nat k) (of_nat 16)) 100 = of_nat k / of_nat 16 * 100"
proof -
  have "k \<in> set [0..<17]" using assms by simp
  with score_arith_set show ?thesis by auto
qed

lemma fl_rel:
  assumes "0 \<le> x"
  shows "\<bar>fl x - x\<bar> \<le> x / 9007199254740992"
  using fl_err [of x] assms by simp

lemma Math_round_err: "\<bar>of_int (Math_round x) - x\<bar> \<le> 1 / 2"
proof -
  have "of_int \<lfloor>x + 1 / 2\<rfloor> \<le> x + 1 / 2" "x + 1 / 2 < of_int \<lfloor>x + 1 / 2\<rfloor> + 1"
    by linarith+
  then show ?thesis unfolding Math_round_def by linarith
qed

text \<open>
  The double-precision product \<open>q * 100 * 100\<close> of a share \<open>q\<close>: three roundings, each of
  one part in \<open>2^53\<close>.
\<close>

lemma hundredths_err:
  assumes "0 \<le> q" "q \<le> 1"
  shows "\<bar>js_mul (js_mul (fl q) 100) 100 - q * 100 * 100\<bar> \<le> 1 / 2 ^ 37"
    and "0 \<le> js_mul (js_mul (fl q) 100) 100"
proof -
  let ?a = "fl q"
  let ?b = "fl (?a * 100)"
  let ?c = "fl (?b * 100)"
  have a0: "0 \<le> ?a" using assms(1) by (rule fl_nonneg)
  then have b0: "0 \<le> ?b" by (intro fl_nonneg) simp
  then have c0: "0 \<le> ?c" by (intro fl_nonneg) simp
  have a: "\<bar>?a - q\<bar> \<le> q / 9007199254740992" using assms(1) by (rule fl_rel)
  have b: "\<bar>?b - ?a * 100\<bar> \<le> ?a * 100 / 9007199254740992" using a0 by (intro fl_rel) simp
  have c: "\<bar>?c - ?b * 100\<bar> \<le> ?b * 100 / 9007199254740992" using b0 by (intro fl_rel) simp
  have "\<bar>?c - q * 100 * 100\<bar> \<le> 1 / 137438953472"
    using a b c assms by linarith
  then show "\<bar>js_mul (js_mul (fl q) 100) 100 - q * 100 * 100\<bar> \<le> 1 / 2 ^ 37"
    by (simp add: js_mul_def)
  show "0 \<le> js_mul (js_mul (fl q) 100) 100"
    using c0 by (simp add: js_mul_def)
qed

text \<open>
  An integer within \<open>1/2 + 2^-37\<close> of a fraction with a denominator below \<open>2^32\<close> is within
  \<open>1/2\<close> of it.
\<close>

lemma nearest_integer:
  fixes R :: int and M n :: nat
  assumes n: "0 < n" "n < 2 ^ 32"
    and d: "\<bar>of_int R - (of_nat M / of_nat n :: rat)\<bar> \<le> 1 / 2 + 1 / 2 ^ 37"
  shows "\<bar>of_int R - (of_nat M / of_nat n :: rat)\<bar> \<le> 1 / 2"
proof -
  define D where "D = 2 * int n * R - 2 * int M"
  have np: "(0::rat) < of_nat n" using n(1) by simp
  have e: "of_int R - (of_nat M / of_nat n :: rat) = of_int D / (2 * of_nat n)"
    using np by (simp add: D_def field_simps)
  have nb: "(of_nat n :: rat) < 2 ^ 32"
  proof -
    have "(of_nat n :: rat) < of_nat (2 ^ 32)" using n(2) by (simp only: of_nat_less_iff)
    then show ?thesis by simp
  qed
  have "\<bar>of_int D :: rat\<bar> / (2 * of_nat n) \<le> 1 / 2 + 1 / 2 ^ 37"
    using d np unfolding e by (simp add: abs_divide)
  then have "\<bar>of_int D :: rat\<bar> \<le> (1 / 2 + 1 / 2 ^ 37) * (2 * of_nat n)"
    using np by (simp add: pos_divide_le_eq)
  also have "\<dots> < of_nat n + 1" using nb by simp
  finally have "(of_int \<bar>D\<bar> :: rat) < of_int (int n + 1)" by simp
  then have "\<bar>D\<bar> < int n + 1" by (simp only: of_int_less_iff)
  then have "\<bar>D\<bar> \<le> int n" by simp
  then have "(of_int \<bar>D\<bar> :: rat) \<le> of_int (int n)" by (simp only: of_int_le_iff)
  then have "\<bar>of_int D :: rat\<bar> / (2 * of_nat n) \<le> 1 / 2"
    using np by (simp add: pos_divide_le_eq)
  then show ?thesis unfolding e using np by (simp add: abs_divide)
qed

lemma round_of_nearest:
  fixes R :: int and y :: rat
  assumes "\<bar>of_int R - y\<bar> \<le> 1 / 2"
  shows "R = round y \<or> frac y = 1 / 2 \<and> R = round y - 1"
proof (cases "y = of_int R + 1 / 2")
  case True
  then have "y + 1 / 2 = of_int (R + 1)" by simp
  then have "round y = R + 1" unfolding round_def by (simp only: floor_of_int)
  moreover have "\<lfloor>y\<rfloor> = R" unfolding True by linarith
  then have "frac y = 1 / 2" unfolding frac_def using True by simp
  ultimately show ?thesis by simp
next
  case False
  then have "of_int R \<le> y + 1 / 2" "y + 1 / 2 < of_int R + 1" using assms by linarith+
  then have "\<lfloor>y + 1 / 2\<rfloor> = R" by (simp only: floor_unique)
  then show ?thesis by (simp add: round_def)
qed

lemma hundredths_nearest:
  fixes m n :: nat
  assumes "0 < n" "n < 2 ^ 32" "m \<le> n"
  defines "R \<equiv> Math_round (js_mul (js_mul (js_div (of_nat m) (of_nat n)) 100) 100)"
  shows "R = round (of_nat m / of_nat n * 100 * 100 :: rat)
         \<or> frac (of_nat m / of_nat n * 100 * 100 :: rat) = 1 / 2
           \<and> R = round (of_nat m / of_nat n * 100 * 100 :: rat) - 1"
proof -
  let ?q = "of_nat m / of_nat n :: rat"
  let ?c = "js_mul (js_mul (js_div (of_nat m) (of_nat n)) 100) 100"
  have q: "0 \<le> ?q" "?q \<le> 1" using assms(1,3) by (simp_all add: divide_le_eq_1)
  have c: "\<bar>?c - ?q * 100 * 100\<bar> \<le> 1 / 2 ^ 37"
    using hundredths_err(1) [OF q] by (simp add: js_div_def)
  have "\<bar>of_int R - ?c\<bar> \<le> 1 / 2" unfolding R_def by (rule Math_round_err)
  with c have "\<bar>of_int R - ?q * 100 * 100\<bar> \<le> 1 / 2 + 1 / 2 ^ 37" by linarith
  moreover have eq: "?q * 100 * 100 = of_nat (m * 10000) / of_nat n" by simp
  ultimately have "\<bar>of_int R - (of_nat (m * 10000) / of_nat n :: rat)\<bar> \<le> 1 / 2 + 1 / 2 ^ 37"
    by (simp only:)
  then have "\<bar>of_int R - (of_nat (m * 10000) / of_nat n :: rat)\<bar> \<le> 1 / 2"
    using assms(1,2) by (intro nearest_integer)
  then have "\<bar>of_int R - ?q * 100 * 100\<bar> \<le> 1 / 2" by (simp only: eq)
  then show ?thesis by (rule round_of_nearest)
qed

lemma hundredths_bounds:
  fixes m n :: nat
  assumes "0 < n" "m \<le> n"
  defines "R \<equiv> Math_round (js_mul (js_mul (js_div (of_nat m) (of_nat n)) 100) 100)"
  shows "0 \<le> R" and "R \<le> 10000"
proof -
  let ?q = "of_nat m / of_nat n :: rat"
  let ?c = "js_mul (js_mul (js_div (of_nat m) (of_nat n)) 100) 100"
  have q: "0 \<le> ?q" "?q \<le> 1" using assms(1,2) by (simp_all add: divide_le_eq_1)
  have c: "\<bar>?c - ?q * 100 * 100\<bar> \<le> 1 / 2 ^ 37" "0 \<le> ?c"
    using hundredths_err [OF q] by (simp_all add: js_div_def)
  have "?q * 100 * 100 \<le> 10000" using q(2) by simp
  moreover have "1 / 2 ^ 37 < (1 / 2 :: rat)" by simp
  ultimately have "?c + 1 / 2 < of_int 10000 + 1" using c(1) by linarith
  then have "\<lfloor>?c + 1 / 2\<rfloor> \<le> 10000" by (simp only: floor_le_iff)
  then show "R \<le> 10000" by (simp add: R_def Math_round_def)
  have "0 \<le> \<lfloor>?c + 1 / 2\<rfloor>" using c(2) by simp
  then show "0 \<le> R" by (simp add: R_def Math_round_def)
qed

lemma js_div_100_bounds:
  fixes R :: int
  assumes "0 \<le> R" "R \<le> 10000"
  shows "0 \<le> js_div (of_int R) 100" and "js_div (of_int R) 100 \<le> 100"
proof -
  have r: "(0::rat) \<le> of_int R / 100" using assms(1) by simp
  then show "0 \<le> js_div (of_int R) 100" unfolding js_div_def by (rule fl_nonneg)
  show "js_div (of_int R) 100 \<le> 100"
  proof (cases "R = 10000")
    case True
    then show ?thesis by (simp add: js_div_def fl_small)
  next
    case False
    then have "R \<le> 9999" using assms(2) by simp
    then have "(of_int R :: rat) \<le> of_int 9999" by (simp only: of_int_le_iff)
    then have "(of_int R :: rat) / 100 \<le> 9999 / 100" by simp
    then show ?thesis using fl_rel [OF r] unfolding js_div_def by linarith
  qed
qed

lemma fl_abs: "\<bar>fl x - x\<bar> \<le> \<bar>x\<bar> / 9007199254740992"
  using fl_err [of x] by simp

text \<open>
  The double-precision product of two literals or quotients that are not negative: three
  roundings.
\<close>

lemma fl_mul_err:
  assumes "0 \<le> k" "0 \<le> z"
  shows "\<bar>js_mul (fl k) (fl z) - k * z\<bar> \<le> k * z / 2251799813685248"
    and "0 \<le> js_mul (fl k) (fl z)"
proof -
  define P where "P = k * z"
  define a where "a = fl k"
  define b where "b = fl z"
  define p where "p = a * b"
  have P0: "0 \<le> P" using assms by (simp add: P_def)
  have a0: "0 \<le> a" unfolding a_def using assms(1) by (rule fl_nonneg)
  have b0: "0 \<le> b" unfolding b_def using assms(2) by (rule fl_nonneg)
  have p0: "0 \<le> p" using a0 b0 by (simp add: p_def)
  have ka: "\<bar>a - k\<bar> \<le> k / 9007199254740992" unfolding a_def using assms(1) by (rule fl_rel)
  have kb: "\<bar>b - z\<bar> \<le> z / 9007199254740992" unfolding b_def using assms(2) by (rule fl_rel)
  have au: "a \<le> k * (9007199254740993 / 9007199254740992)"
    and al: "k * (9007199254740991 / 9007199254740992) \<le> a"
    using ka by linarith+
  have bu: "b \<le> z * (9007199254740993 / 9007199254740992)"
    and bl: "z * (9007199254740991 / 9007199254740992) \<le> b"
    using kb by linarith+
  have "p \<le> (k * (9007199254740993 / 9007199254740992)) * (z * (9007199254740993 / 9007199254740992))"
    unfolding p_def using au bu a0 b0 assms by (intro mult_mono) simp_all
  also have "\<dots> = P * ((9007199254740993 / 9007199254740992) * (9007199254740993 / 9007199254740992))"
    by (simp only: P_def mult_ac)
  finally have pu: "p \<le> P * ((9007199254740993 / 9007199254740992) * (9007199254740993 / 9007199254740992))" .
  have "(k * (9007199254740991 / 9007199254740992)) * (z * (9007199254740991 / 9007199254740992)) \<le> p"
    unfolding p_def using al bl assms by (intro mult_mono) simp_all
  moreover have "(k * (9007199254740991 / 9007199254740992)) * (z * (9007199254740991 / 9007199254740992))
        = P * ((9007199254740991 / 9007199254740992) * (9007199254740991 / 9007199254740992))"
    by (simp only: P_def mult_ac)
  ultimately have pl: "P * ((9007199254740991 / 9007199254740992) * (9007199254740991 / 9007199254740992)) \<le> p"
    by (simp only:)
  have f: "\<bar>fl p - p\<bar> \<le> p / 9007199254740992" using p0 by (rule fl_rel)
  have "\<bar>fl p - P\<bar> \<le> P / 2251799813685248"
    using f pu pl P0 by linarith
  then show "\<bar>js_mul (fl k) (fl z) - k * z\<bar> \<le> k * z / 2251799813685248"
    by (simp only: js_mul_def p_def a_def b_def P_def)
  show "0 \<le> js_mul (fl k) (fl z)"
    unfolding js_mul_def using p0 unfolding p_def a_def b_def by (rule fl_nonneg)
qed

lemma flesch_arith_err:
  assumes A: "0 \<le> A" "\<bar>p1 - A\<bar> \<le> A / 2251799813685248" "0 \<le> p1"
    and B: "0 \<le> B" "\<bar>p2 - B\<bar> \<le> B / 2251799813685248" "0 \<le> p2"
  shows "\<bar>js_sub (js_sub (js_lit (206835 / 1000)) p1) p2 - (206835 / 1000 - A - B)\<bar>
           \<le> (206835 / 1000 + A + B) / 1125899906842624"
proof -
  define C :: rat where "C = 206835 / 1000"
  define c where "c = fl C"
  define s1 where "s1 = fl (c - p1)"
  define s2 where "s2 = fl (s1 - p2)"
  have C0: "0 \<le> C" by (simp add: C_def)
  have c: "\<bar>c - C\<bar> \<le> C / 9007199254740992"
    unfolding c_def using C0 by (rule fl_rel)
  have s1: "\<bar>s1 - (c - p1)\<bar> \<le> \<bar>c - p1\<bar> / 9007199254740992"
    unfolding s1_def by (rule fl_abs)
  have s2: "\<bar>s2 - (s1 - p2)\<bar> \<le> \<bar>s1 - p2\<bar> / 9007199254740992"
    unfolding s2_def by (rule fl_abs)
  have c1: "c \<le> C + C / 9007199254740992" "0 \<le> c" using c C0 by linarith+
  have p1: "p1 \<le> A + A / 2251799813685248" using A by linarith
  have p2: "p2 \<le> B + B / 2251799813685248" using B by linarith
  have "\<bar>c - p1\<bar> \<le> c + p1" using c1 A by linarith
  then have "\<bar>c - p1\<bar> \<le> 2 * C + 2 * A" using c1 p1 A(1) C0 by linarith
  then have "\<bar>c - p1\<bar> / 9007199254740992 \<le> (2 * C + 2 * A) / 9007199254740992"
    by (rule divide_right_mono) simp
  with s1 have "\<bar>s1 - (c - p1)\<bar> \<le> (2 * C + 2 * A) / 9007199254740992"
    by (rule order_trans)
  then have e1: "\<bar>s1 - (c - p1)\<bar> \<le> 2 * C / 9007199254740992 + 2 * A / 9007199254740992"
    by (simp only: add_divide_distrib)
  have d1: "\<bar>s1 - (C - A)\<bar> \<le> 6 * C / 9007199254740992 + 6 * A / 9007199254740992"
    using e1 c A(1,2) C0 by linarith
  then have a1: "\<bar>s1\<bar> \<le> 2 * C + 2 * A"
    using A(1) C0 by linarith
  have "\<bar>s1 - p2\<bar> \<le> \<bar>s1\<bar> + p2" using B(3) by linarith
  then have "\<bar>s1 - p2\<bar> \<le> 2 * C + 2 * A + 2 * B" using a1 p2 B(1) by linarith
  then have "\<bar>s1 - p2\<bar> / 9007199254740992 \<le> (2 * C + 2 * A + 2 * B) / 9007199254740992"
    by (rule divide_right_mono) simp
  with s2 have "\<bar>s2 - (s1 - p2)\<bar> \<le> (2 * C + 2 * A + 2 * B) / 9007199254740992"
    by (rule order_trans)
  then have e2: "\<bar>s2 - (s1 - p2)\<bar>
      \<le> 2 * C / 9007199254740992 + 2 * A / 9007199254740992 + 2 * B / 9007199254740992"
    by (simp only: add_divide_distrib)
  have "\<bar>s2 - (C - A - B)\<bar>
      \<le> C / 1125899906842624 + A / 1125899906842624 + B / 1125899906842624"
    using e2 d1 B(1,2) A(1) C0 by linarith
  then have "\<bar>s2 - (C - A - B)\<bar> \<le> (C + A + B) / 1125899906842624"
    by (simp only: add_divide_distrib)
  then show ?thesis
    by (simp only: js_sub_def js_lit_def c_def s1_def s2_def C_def)
qed

lemma Math_round_near:
  assumes "\<bar>y - x\<bar> \<le> e" "e < \<bar>frac x - 1 / 2\<bar>"
  shows "Math_round y = round x"
proof -
  have f: "of_int \<lfloor>x\<rfloor> \<le> x" "x < of_int \<lfloor>x\<rfloor> + 1" by linarith+
  have e0: "0 \<le> e" using assms(1) by linarith
  consider "frac x < 1 / 2" | "1 / 2 < frac x" using assms(2) e0 by linarith
  then show ?thesis
  proof cases
    case 1
    then have "of_int \<lfloor>x\<rfloor> \<le> x + 1 / 2" "x + 1 / 2 < of_int \<lfloor>x\<rfloor> + 1"
      using f unfolding frac_def by linarith+
    then have r: "\<lfloor>x + 1 / 2\<rfloor> = \<lfloor>x\<rfloor>" by (simp only: floor_unique)
    have "of_int \<lfloor>x\<rfloor> \<le> y + 1 / 2" "y + 1 / 2 < of_int \<lfloor>x\<rfloor> + 1"
      using 1 f assms unfolding frac_def by linarith+
    then have "\<lfloor>y + 1 / 2\<rfloor> = \<lfloor>x\<rfloor>" by (simp only: floor_unique)
    with r show ?thesis by (simp add: Math_round_def round_def)
  next
    case 2
    then have "of_int (\<lfloor>x\<rfloor> + 1) \<le> x + 1 / 2" "x + 1 / 2 < of_int (\<lfloor>x\<rfloor> + 1) + 1"
      using f unfolding frac_def by simp_all
    then have r: "\<lfloor>x + 1 / 2\<rfloor> = \<lfloor>x\<rfloor> + 1" by (simp only: floor_unique)
    have "of_int (\<lfloor>x\<rfloor> + 1) \<le> y + 1 / 2" "y + 1 / 2 < of_int (\<lfloor>x\<rfloor> + 1) + 1"
      using 2 f assms unfolding frac_def by simp_all
    then have "\<lfloor>y + 1 / 2\<rfloor> = \<lfloor>x\<rfloor> + 1" by (simp only: floor_unique)
    with r show ?thesis by (simp add: Math_round_def round_def)
  qed
qed

lemma flesch_double_err:
  assumes "0 < S" "0 < W"
  shows "\<bar>flesch_double S W Y - flesch_exact S W Y\<bar> \<le> flesch_error S W Y"
proof -
  let ?X = "of_nat W / of_nat S :: rat"
  let ?Z = "of_nat Y / of_nat W :: rat"
  have X: "0 \<le> ?X" and Z: "0 \<le> ?Z" by simp_all
  have k1: "(0::rat) \<le> 1015 / 1000" and k2: "(0::rat) \<le> 846 / 10" by simp_all
  have A: "(0::rat) \<le> 1015 / 1000 * ?X" and B: "(0::rat) \<le> 846 / 10 * ?Z" by simp_all
  note p1 = fl_mul_err [OF k1 X]
  note p2 = fl_mul_err [OF k2 Z]
  have "\<bar>js_sub (js_sub (js_lit (206835 / 1000)) (js_mul (fl (1015 / 1000)) (fl ?X)))
            (js_mul (fl (846 / 10)) (fl ?Z))
          - (206835 / 1000 - 1015 / 1000 * ?X - 846 / 10 * ?Z)\<bar>
        \<le> (206835 / 1000 + 1015 / 1000 * ?X + 846 / 10 * ?Z) / 1125899906842624"
    using A p1 B p2 by (rule flesch_arith_err)
  moreover have "(206.835::rat) = 206835 / 1000" "(1.015::rat) = 1015 / 1000" "(84.6::rat) = 846 / 10"
    by simp_all
  ultimately show ?thesis
    by (simp add: flesch_double_def flesch_exact_def flesch_error_def js_lit_def js_div_def)
qed

section \<open>The heading validator\<close>





section \<open>Score and recommendations\<close>

lemma score_analyzeSEO: "score (analyzeSEO p) = calculateSEOScore (checks (analyzeSEO p))"
  by (simp add: analyzeSEO_def Let_def)

lemma keywordDensity_analyzeSEO:
  "SEOAnalysis.keywordDensity (analyzeSEO p) = calculateKeywordDensity (content p) (keyword p)"
  by (simp add: analyzeSEO_def Let_def)

lemma recommendations_analyzeSEO:
  "recommendations (analyzeSEO p) =
     generateRecommendations (checks (analyzeSEO p))
       (calculateKeywordDensity (content p) (keyword p)) (keyword p)"
  by (simp add: analyzeSEO_def Let_def)

lemma length_Object_keys: "length (Object_keys cs) = 16"
  by (simp add: Object_keys_def)

lemma length_Object_values: "length (Object_values cs) = 16"
  by (simp add: Object_values_def)

lemma Math_round_bounds:
  assumes "0 \<le> x" "x \<le> of_int n"
  shows "0 \<le> Math_round x \<and> Math_round x \<le> n"
proof -
  have "x + 1 / 2 < of_int n + 1" using assms by simp
  then have "\<lfloor>x + 1 / 2\<rfloor> \<le> n" by (simp only: floor_le_iff)
  moreover have "0 \<le> \<lfloor>x + 1 / 2\<rfloor>" using assms by simp
  ultimately show ?thesis by (simp add: Math_round_def)
qed

text \<open>
  The quotient of a number of passed checks by 16 and its product with 100 are doubles, so
  the score is computed without rounding error.
\<close>

lemma calculateSEOScore_eq:
  "calculateSEOScore cs =
     Math_round (of_nat (length (filter (\<lambda>v. v) (Object_values cs))) / of_nat 16 * 100)"
proof -
  have "length (filter (\<lambda>v. v) (Object_values cs)) \<le> 16"
    using length_filter_le [of "\<lambda>v. v" "Object_values cs"]
    by (simp only: length_Object_values)
  then show ?thesis
    unfolding calculateSEOScore_def Let_def length_Object_keys by (simp only: score_arith)
qed

lemma calculateSEOScore_bounds: "0 \<le> calculateSEOScore cs \<and> calculateSEOScore cs \<le> 100"
proof -
  let ?k = "length (filter (\<lambda>v. v) (Object_values cs))"
  have "?k \<le> 16" using length_filter_le[of "\<lambda>v. v" "Object_values cs"]
    by (simp only: length_Object_values)
  then have "(of_nat ?k :: rat) \<le> 16" by simp
  then have "(of_nat ?k / of_nat 16) * 100 \<le> (of_int 100 :: rat)" by simp
  moreover have "0 \<le> (of_nat ?k / of_nat 16) * (100 :: rat)" by simp
  ultimately show ?thesis
    unfolding calculateSEOScore_eq
    by (rule Math_round_bounds[rotated])
qed

text \<open>
  C1. The score of \<open>analyzeSEO\<close> is the number of passing checks times 100 over the number
  of checks, rounded; the checks object has exactly 16 properties; so the score lies
  between 0 and 100.
\<close>

theorem analyzeSEO_score:
  "score (analyzeSEO p) =
     round (100 * of_nat (length (filter (\<lambda>v. v) (Object_values (checks (analyzeSEO p))))) / 16
            :: rat)
   \<and> length (Object_keys (checks (analyzeSEO p))) = 16
   \<and> length (Object_values (checks (analyzeSEO p))) = 16
   \<and> 0 \<le> score (analyzeSEO p) \<and> score (analyzeSEO p) \<le> 100"
proof -
  have "score (analyzeSEO p) =
     round (100 * of_nat (length (filter (\<lambda>v. v) (Object_values (checks (analyzeSEO p))))) / 16
            :: rat)"
    by (simp add: score_analyzeSEO calculateSEOScore_eq Math_round_def round_def)
  moreover note calculateSEOScore_bounds [of "checks (analyzeSEO p)"]
  ultimately show ?thesis
    by (simp add: score_analyzeSEO length_Object_keys length_Object_values)
qed

theorem analyzeSEO_score_witness:
  "length (filter (\<lambda>v. v) (Object_values (checks (analyzeSEO (empty_artifact [] [] 0))))) = 3
   \<and> score (analyzeSEO (empty_artifact [] [] 0)) = 19"
proof -
  have k: "length (filter (\<lambda>v. v) (Object_values (checks (analyzeSEO (empty_artifact [] [] 0)))))
             = 3"
    by code_simp
  have r: "round (100 * of_nat 3 / 16 :: rat) = 19"
    by code_simp
  show ?thesis
    using analyzeSEO_score [of "empty_artifact [] [] 0"] unfolding k r by simp
qed

lemma push_unless_append: "push_unless ok msg recs = recs @ (if ok then [] else [msg])"
  by (simp add: push_unless_def)

lemma failed_messages_Nil: "failed_messages [] msgs = []"
  by (simp add: failed_messages_def)

lemma failed_messages_Cons:
  "failed_messages (ok # vals) (msg # msgs) =
     (if ok then [] else [msg]) @ failed_messages vals msgs"
  by (simp add: failed_messages_def)

lemma generateRecommendations_table:
  "generateRecommendations cs d kw = failed_messages (Object_values cs) (check_messages d kw)"
  unfolding generateRecommendations_def Let_def Object_values_def check_messages_def
    push_unless_append failed_messages_Cons failed_messages_Nil
    TARGET_KEYWORD_DENSITY_min_def TARGET_INTERNAL_LINKS_min_def TARGET_INTERNAL_LINKS_max_def
    TARGET_EXTERNAL_LINKS_min_def TARGET_WORD_COUNT_def TARGET_READABILITY_SCORE_def
  by (simp only: append_assoc append_Nil append_Nil2 of_nat_numeral)

lemma length_failed_messages:
  "length vals = length msgs \<Longrightarrow>
     length (failed_messages vals msgs) = length vals - length (filter (\<lambda>v. v) vals)"
proof (induction vals msgs rule: list_induct2)
  case Nil
  then show ?case by (simp add: failed_messages_def)
next
  case (Cons v vs m ms)
  have "length (filter (\<lambda>v. v) vs) \<le> length vs" by simp
  with Cons show ?case by (simp add: failed_messages_def Suc_diff_le)
qed

lemma distinct_failed_messages: "distinct msgs \<Longrightarrow> distinct (failed_messages vals msgs)"
proof -
  assume d: "distinct msgs"
  have "distinct (map snd (zip vals msgs))"
    using d by (metis distinct_take map_snd_zip_take)
  then show ?thesis
    unfolding failed_messages_def by (rule distinct_map_filter)
qed

lemma distinct_check_messages: "distinct (check_messages d kw)"
  by (simp add: check_messages_def)

lemma length_check_messages: "length (check_messages d kw) = 16"
  by (simp add: check_messages_def)

text \<open>
  C2. The recommendations of \<open>analyzeSEO\<close> are the messages of the failed checks, taken
  from the table of the 16 checks in declaration order (\<open>keywordDensity\<close> first,
  \<open>imageAltTags\<close> last): one for each failed check and no other, so their number is 16
  minus the number of passing checks, and no message occurs twice.
\<close>

theorem analyzeSEO_recommendations:
  "recommendations (analyzeSEO p) =
     failed_messages (Object_values (checks (analyzeSEO p)))
       (check_messages (SEOAnalysis.keywordDensity (analyzeSEO p)) (keyword p))
   \<and> length (recommendations (analyzeSEO p)) =
       16 - length (filter (\<lambda>v. v) (Object_values (checks (analyzeSEO p))))
   \<and> distinct (recommendations (analyzeSEO p))"
proof -
  let ?cs = "checks (analyzeSEO p)"
  let ?d = "calculateKeywordDensity (content p) (keyword p)"
  have eq: "recommendations (analyzeSEO p) =
              failed_messages (Object_values ?cs) (check_messages ?d (keyword p))"
    by (simp only: recommendations_analyzeSEO generateRecommendations_table)
  have len: "length (failed_messages (Object_values ?cs) (check_messages ?d (keyword p))) =
               16 - length (filter (\<lambda>v. v) (Object_values ?cs))"
    using length_failed_messages [of "Object_values ?cs" "check_messages ?d (keyword p)"]
    by (simp only: length_Object_values length_check_messages)
  have dist: "distinct (failed_messages (Object_values ?cs) (check_messages ?d (keyword p)))"
    by (rule distinct_failed_messages [OF distinct_check_messages])
  show ?thesis
    using eq len dist by (simp only: keywordDensity_analyzeSEO)
qed

theorem analyzeSEO_recommendations_witness:
  "recommendations
     (analyzeSEO (empty_artifact ''Practical SEO guide for small business owners'' ''seo'' 70)) =
     [AddMoreMentions ''seo'' 0, KeywordInMetaMsg ''seo'', KeywordInH1Msg,
      FirstParagraphMsg ''seo'', MetaLengthMsg, HeadingStructureMsg, InternalLinksMsg 3 7,
      ExternalLinksMsg 3, WordCountMsg 2000, FAQMsg, CallToActionMsg, ImagesMsg, AltTextMsg]
   \<and> length (recommendations
       (analyzeSEO (empty_artifact ''Practical SEO guide for small business owners'' ''seo'' 70)))
       = 16 - 3"
proof -
  let ?a = "empty_artifact ''Practical SEO guide for small business owners'' ''seo'' 70"
  have v: "Object_values (checks (analyzeSEO ?a)) =
             [False, True, False, False, False, True, False, False, False, False, False, True,
              False, False, False, False]"
    by code_simp
  have d: "SEOAnalysis.keywordDensity (analyzeSEO ?a) = 0"
    by code_simp
  have k: "keyword ?a = ''seo''"
    by (simp add: empty_artifact_def)
  show ?thesis
    using analyzeSEO_recommendations [of ?a] unfolding v d k
    by (simp add: failed_messages_def check_messages_def)
qed

section \<open>Splitting and matching\<close>

lemma String_includes_iff: "String_includes s t \<longleftrightarrow> sublist t s"
  by (induction s) (simp_all add: sublist_Cons_right)

lemma tokens_dropWhile: "tokens P (dropWhile P s) = tokens P s"
  by (induction s) simp_all

lemma class_plus_Cons:
  "class_plus P (c # cs) = (if P c then Some (Suc (length (takeWhile P cs))) else None)"
  by (simp add: class_plus_def)

lemma class_plus_Nil: "class_plus P [] = None"
  by (simp add: class_plus_def)

lemma drop_takeWhile_length: "drop (length (takeWhile P xs)) xs = dropWhile P xs"
  by (simp add: dropWhile_eq_drop)

lemma split_loop_class_plus:
  "\<forall>x\<in>set cur. \<not> P x \<Longrightarrow>
   filter (\<lambda>w. length w > 0) (split_loop (class_plus P) cur s) =
     (if cur = [] then tokens P s
      else (cur @ takeWhile (\<lambda>x. \<not> P x) s) # tokens P (dropWhile (\<lambda>x. \<not> P x) s))"
proof (induction "class_plus P" cur s rule: split_loop.induct)
  case (1 cur)
  then show ?case by simp
next
  case (2 cur c cs)
  show ?case
  proof (cases "P c")
    case True
    have "filter (\<lambda>w. length w > 0) (split_loop (class_plus P) [] (dropWhile P cs)) =
            tokens P (dropWhile P cs)"
      using "2.hyps"(3) [of "Suc (length (takeWhile P cs))"] True
      by (simp add: class_plus_Cons drop_takeWhile_length)
    then show ?thesis
      using True by (simp add: class_plus_Cons drop_takeWhile_length tokens_dropWhile)
  next
    case False
    have "filter (\<lambda>w. length w > 0) (split_loop (class_plus P) (cur @ [c]) cs) =
            ((cur @ [c]) @ takeWhile (\<lambda>x. \<not> P x) cs) # tokens P (dropWhile (\<lambda>x. \<not> P x) cs)"
      using "2.hyps"(1) "2.prems" False by (simp add: class_plus_Cons)
    then show ?thesis
      using False by (simp add: class_plus_Cons)
  qed
qed

lemma String_split_tokens:
  "filter (\<lambda>w. length w > 0) (String_split (class_plus P) s) = tokens P s"
  using split_loop_class_plus [of "[]" P s]
  by (simp add: String_split_def class_plus_Nil)

lemma match_all_tokens: "match_all (class_plus P) s = tokens (\<lambda>c. \<not> P c) s"
proof (induction "class_plus P" s rule: match_all.induct)
  case 1
  then show ?case by (simp add: class_plus_Nil)
next
  case (2 c cs)
  show ?case
  proof (cases "P c")
    case True
    have "match_all (class_plus P) (dropWhile P cs) = tokens (\<lambda>c. \<not> P c) (dropWhile P cs)"
      using "2.hyps"(2) [of "Suc (length (takeWhile P cs))"] True
      by (simp add: class_plus_Cons drop_takeWhile_length)
    moreover have "take (length (takeWhile P cs)) cs = takeWhile P cs"
      by (rule takeWhile_eq_take [symmetric])
    ultimately show ?thesis
      using True by (simp add: class_plus_Cons drop_takeWhile_length)
  next
    case False
    then show ?thesis
      using "2.hyps"(1) by (simp add: class_plus_Cons)
  qed
qed

lemma split_loop_not_Nil: "split_loop m cur s \<noteq> []"
  by (induction m cur s rule: split_loop.induct) (auto split: option.splits)

lemma blank_lines_Cons:
  "blank_lines (c # cs) =
     (if c = LF \<and> cs \<noteq> [] \<and> hd cs = LF then Some (Suc (length (takeWhile (\<lambda>x. x = LF) cs)))
      else None)"
  by (cases cs) (auto simp add: blank_lines_def lit_def class_plus_def)

lemma hd_split_loop_blank_lines:
  "hd (split_loop blank_lines cur s) = cur @ before_blank_line s"
proof (induction blank_lines cur s rule: split_loop.induct)
  case (1 cur)
  then show ?case by simp
next
  case (2 cur c cs)
  show ?case
  proof (cases "c = LF \<and> cs \<noteq> [] \<and> hd cs = LF")
    case True
    then obtain d ds where "cs = d # ds" "d = LF" by (cases cs) auto
    then show ?thesis using True by (simp add: blank_lines_Cons)
  next
    case False
    have "hd (split_loop blank_lines (cur @ [c]) cs) = (cur @ [c]) @ before_blank_line cs"
      using "2.hyps"(1) False by (simp add: blank_lines_Cons)
    moreover have "before_blank_line (c # cs) = c # before_blank_line cs"
      using False by (cases cs) auto
    ultimately show ?thesis using False by (simp add: blank_lines_Cons)
  qed
qed

lemma String_split_blank_lines:
  "\<exists>ps. String_split blank_lines s = before_blank_line s # ps"
proof (cases s)
  case Nil
  then show ?thesis by (simp add: String_split_def blank_lines_def lit_def)
next
  case (Cons c cs)
  have "split_loop blank_lines [] s \<noteq> []" by (rule split_loop_not_Nil)
  then obtain p ps where e: "split_loop blank_lines [] s = p # ps"
    by (cases "split_loop blank_lines [] s") auto
  then have "p = before_blank_line s"
    using hd_split_loop_blank_lines [of "[]" s] by simp
  then show ?thesis using e Cons by (simp add: String_split_def)
qed

lemma all_dropWhile_iff: "(\<forall>x\<in>set (dropWhile P s). P x) \<longleftrightarrow> dropWhile P s = []"
proof
  assume a: "\<forall>x\<in>set (dropWhile P s). P x"
  show "dropWhile P s = []"
  proof (rule ccontr)
    assume n: "dropWhile P s \<noteq> []"
    then have "\<not> P (hd (dropWhile P s))" by (rule hd_dropWhile)
    moreover have "hd (dropWhile P s) \<in> set (dropWhile P s)" using n by simp
    ultimately show False using a by blast
  qed
qed (auto dest: set_dropWhileD)

lemma trim_empty_iff: "length (trim s) > 0 \<longleftrightarrow> (\<exists>c\<in>set s. \<not> isWhiteSpace c)"
proof -
  have "trim s = [] \<longleftrightarrow> (\<forall>x\<in>set (dropWhile isWhiteSpace s). isWhiteSpace x)"
    by (simp add: trim_def)
  also have "\<dots> \<longleftrightarrow> dropWhile isWhiteSpace s = []"
    by (rule all_dropWhile_iff)
  also have "\<dots> \<longleftrightarrow> (\<forall>x\<in>set s. isWhiteSpace x)"
    by simp
  finally show ?thesis by auto
qed

section \<open>Texts made of repeated words\<close>

lemma tokens_word:
  assumes "w \<noteq> []" "\<forall>c\<in>set w. \<not> sep c" "rest = [] \<or> sep (hd rest)"
  shows "tokens sep (w @ rest) = w # tokens sep rest"
proof -
  obtain c cs where w: "w = c # cs" using assms(1) by (cases w) auto
  have cs: "\<forall>x\<in>set cs. \<not> sep x" and c: "\<not> sep c" using assms(2) w by simp_all
  have t: "takeWhile (\<lambda>x. \<not> sep x) (cs @ rest) = cs"
    using cs assms(3) by (cases rest) (simp_all add: takeWhile_append2)
  have d: "dropWhile (\<lambda>x. \<not> sep x) (cs @ rest) = rest"
    using cs assms(3) by (cases rest) (simp_all add: dropWhile_append2)
  show ?thesis using c by (simp add: w t d)
qed

lemma tokens_repeat:
  assumes "w \<noteq> []" "\<forall>c\<in>set w. \<not> sep c" "sep s"
  shows "tokens sep (concat (replicate n (w @ [s])) @ rest) = replicate n w @ tokens sep rest"
proof (induction n)
  case 0
  show ?case by simp
next
  case (Suc n)
  have "tokens sep (w @ s # (concat (replicate n (w @ [s])) @ rest))
          = w # tokens sep (s # (concat (replicate n (w @ [s])) @ rest))"
    using assms by (intro tokens_word) simp_all
  then show ?case using Suc assms(3) by simp
qed

lemma tokens_repeat_pre:
  assumes "w \<noteq> []" "\<forall>c\<in>set w. \<not> sep c" "sep s" "rest = [] \<or> sep (hd rest)"
  shows "tokens sep (concat (replicate n (s # w)) @ rest) = replicate n w @ tokens sep rest"
proof (induction n)
  case 0
  show ?case by simp
next
  case (Suc n)
  let ?r = "concat (replicate n (s # w)) @ rest"
  have "?r = [] \<or> sep (hd ?r)" using assms(3,4) by (cases n) auto
  then have "tokens sep (w @ ?r) = w # tokens sep ?r"
    using assms(1,2) by (intro tokens_word)
  then show ?case using Suc assms(3) by simp
qed

lemma toLowerCase_repeat:
  "toLowerCase (concat (replicate n w) @ rest) = concat (replicate n (toLowerCase w)) @ toLowerCase rest"
  by (simp add: toLowerCase_def map_concat)

lemma tie_content_tokens:
  "content_tokens tie_content = replicate 23 ''seo'' @ replicate 137 ''page''"
proof -
  have l: "toLowerCase ''seo '' = ''seo'' @ '' ''" "toLowerCase ''page '' = ''page'' @ '' ''"
    "toLowerCase [] = []"
    by code_simp+
  have "content_tokens tie_content =
          tokens isWhiteSpace (concat (replicate 23 (''seo'' @ '' '')) @
             (concat (replicate 137 (''page'' @ '' '')) @ []))"
    unfolding content_tokens_def tie_content_def toLowerCase_repeat l
    using toLowerCase_repeat [of 137 "''page ''" "[]"] by (simp only: l append_Nil2)
  also have "\<dots> = replicate 23 ''seo'' @
      tokens isWhiteSpace (concat (replicate 137 (''page'' @ '' '')) @ [])"
    by (rule tokens_repeat) (simp_all add: isWhiteSpace_def)
  also have "tokens isWhiteSpace (concat (replicate 137 (''page'' @ '' '')) @ []) =
      replicate 137 ''page'' @ tokens isWhiteSpace []"
    by (rule tokens_repeat) (simp_all add: isWhiteSpace_def)
  finally show ?thesis by simp
qed


lemma tie_content_counts:
  "length (content_tokens tie_content) = 160" "keyword_matches tie_content ''seo'' = 23"
proof -
  show "length (content_tokens tie_content) = 160" by (simp add: tie_content_tokens)
  have "sublist ''seo'' ''seo''" "\<not> sublist ''seo'' ''page''" "toLowerCase ''seo'' = ''seo''"
    by code_simp+
  then show "keyword_matches tie_content ''seo'' = 23"
    by (simp add: keyword_matches_def tie_content_tokens)
qed

lemma starts_repeat:
  assumes "sep s" "rest = [] \<or> sep (hd rest)"
  shows "concat (replicate n (s # w)) @ rest = []
         \<or> sep (hd (concat (replicate n (s # w)) @ rest))"
  using assms by (cases n) auto

lemma tokens_repeat3:
  assumes s: "sep s"
    and u: "u \<noteq> []" "\<forall>c\<in>set u. \<not> sep c"
    and v: "v \<noteq> []" "\<forall>c\<in>set v. \<not> sep c"
    and w: "w \<noteq> []" "\<forall>c\<in>set w. \<not> sep c"
    and r: "rest = [] \<or> sep (hd rest)"
  shows "tokens sep (concat (replicate a (s # u)) @ concat (replicate b (s # v)) @
                     concat (replicate c (s # w)) @ rest)
         = replicate a u @ replicate b v @ replicate c w @ tokens sep rest"
proof -
  let ?r3 = "concat (replicate c (s # w)) @ rest"
  let ?r2 = "concat (replicate b (s # v)) @ ?r3"
  have r3: "?r3 = [] \<or> sep (hd ?r3)" using s r by (rule starts_repeat)
  have r2: "?r2 = [] \<or> sep (hd ?r2)" using s r3 by (rule starts_repeat)
  have "tokens sep (concat (replicate a (s # u)) @ ?r2) = replicate a u @ tokens sep ?r2"
    using u s r2 by (rule tokens_repeat_pre)
  also have "tokens sep ?r2 = replicate b v @ tokens sep ?r3"
    using v s r3 by (rule tokens_repeat_pre)
  also have "tokens sep ?r3 = replicate c w @ tokens sep rest"
    using w s r by (rule tokens_repeat_pre)
  finally show ?thesis .
qed

lemma tokens_repeat_both:
  assumes "w \<noteq> []" "\<forall>c\<in>set w. \<not> sep c" "sep s" "sep e"
  shows "tokens sep (concat (replicate n (s # w @ [e])) @ rest) = replicate n w @ tokens sep rest"
proof (induction n)
  case 0
  show ?case by simp
next
  case (Suc n)
  let ?r = "e # (concat (replicate n (s # w @ [e])) @ rest)"
  have "tokens sep (w @ ?r) = w # tokens sep ?r"
    using assms(1,2,4) by (intro tokens_word) simp_all
  then show ?case using Suc assms(3,4) by simp
qed

section \<open>Keyword metrics, proved\<close>

lemma calculateKeywordDensity_tokens:
  "calculateKeywordDensity c k =
     (if content_tokens c = [] then 0 else js_div (of_int (density_hundredths c k)) 100)"
proof -
  have "(\<lambda>w. String_includes w (toLowerCase k)) = sublist (toLowerCase k)"
    by (rule ext) (simp add: String_includes_iff)
  then show ?thesis
    unfolding calculateKeywordDensity_def Let_def whitespace_run_def String_split_tokens
    by (simp add: content_tokens_def keyword_matches_def density_hundredths_def)
qed

lemma keyword_matches_le: "keyword_matches c k \<le> length (content_tokens c)"
  unfolding keyword_matches_def by (rule length_filter_le)

lemma density_hundredths_bounds:
  assumes "content_tokens c \<noteq> []"
  shows "0 \<le> density_hundredths c k" and "density_hundredths c k \<le> 10000"
proof -
  have n: "0 < length (content_tokens c)" using assms by simp
  show "0 \<le> density_hundredths c k" and "density_hundredths c k \<le> 10000"
    unfolding density_hundredths_def
    using hundredths_bounds [OF n keyword_matches_le [of c k]] by simp_all
qed

lemma density_hundredths_nearest:
  assumes "content_tokens c \<noteq> []" "length (content_tokens c) < 2 ^ 32"
  shows "density_hundredths c k = round (exact_hundredths c k)
         \<or> frac (exact_hundredths c k) = 1 / 2
           \<and> density_hundredths c k = round (exact_hundredths c k) - 1"
proof -
  have n: "0 < length (content_tokens c)" using assms(1) by simp
  show ?thesis
    unfolding density_hundredths_def exact_hundredths_def
    using n assms(2) keyword_matches_le by (rule hundredths_nearest)
qed

lemma calculateKeywordDensity_bounds:
  "0 \<le> calculateKeywordDensity c k \<and> calculateKeywordDensity c k \<le> 100"
proof (cases "content_tokens c = []")
  case True
  then show ?thesis by (simp add: calculateKeywordDensity_tokens)
next
  case False
  then show ?thesis
    using js_div_100_bounds [OF density_hundredths_bounds [OF False, of k]]
    by (simp add: calculateKeywordDensity_tokens)
qed

lemma calculateKeywordDensity_claimed:
  assumes "length (content_tokens c) < 2 ^ 32" "frac (exact_hundredths c k) \<noteq> 1 / 2"
  shows "calculateKeywordDensity c k = claimed_density c k"
proof (cases "content_tokens c = []")
  case True
  then show ?thesis by (simp add: calculateKeywordDensity_tokens claimed_density_def)
next
  case False
  then have "density_hundredths c k = round (exact_hundredths c k)"
    using density_hundredths_nearest [OF False assms(1), of k] assms(2) by blast
  then show ?thesis by (simp add: calculateKeywordDensity_tokens claimed_density_def)
qed

lemma calculateKeywordDensity_near:
  assumes "content_tokens c \<noteq> []" "length (content_tokens c) < 2 ^ 32"
  shows "\<bar>calculateKeywordDensity c k
           - of_nat (keyword_matches c k) / of_nat (length (content_tokens c)) * 100\<bar>
         \<le> 1 / 200 + 1 / 2 ^ 46"
proof -
  define R where "R = density_hundredths c k"
  define Y where "Y = exact_hundredths c k"
  have b: "0 \<le> R" "R \<le> 10000"
    unfolding R_def using density_hundredths_bounds [OF assms(1)] by simp_all
  then have r: "(0::rat) \<le> of_int R / 100" by simp
  have "(of_int R :: rat) \<le> of_int 10000" using b(2) by (simp only: of_int_le_iff)
  then have r2: "(of_int R :: rat) / 100 \<le> 100" by simp
  have "R = round Y \<or> frac Y = 1 / 2 \<and> R = round Y - 1"
    unfolding R_def Y_def using assms by (rule density_hundredths_nearest)
  then have "\<bar>of_int R - Y\<bar> \<le> 1 / 2"
  proof
    assume "R = round Y"
    then show ?thesis using of_int_round_abs_le [of Y] by simp
  next
    assume t: "frac Y = 1 / 2 \<and> R = round Y - 1"
    then have "Y = of_int \<lfloor>Y\<rfloor> + 1 / 2" unfolding frac_def by linarith
    then have "Y + 1 / 2 = of_int (\<lfloor>Y\<rfloor> + 1)" by simp
    then have "round Y = \<lfloor>Y\<rfloor> + 1" unfolding round_def by (simp only: floor_of_int)
    with t have "R = \<lfloor>Y\<rfloor>" by simp
    then show ?thesis using t unfolding frac_def by simp
  qed
  then have "\<bar>of_int R / 100 - Y / 100\<bar> \<le> 1 / 200" by linarith
  moreover have "\<bar>fl (of_int R / 100) - of_int R / 100\<bar> \<le> (of_int R / 100) / 9007199254740992"
    using r by (rule fl_rel)
  moreover have "(1::rat) / 2 ^ 46 = 1 / 70368744177664" by simp
  ultimately have "\<bar>fl (of_int R / 100) - Y / 100\<bar> \<le> 1 / 200 + 1 / 2 ^ 46"
    using r2 by linarith
  moreover have "Y / 100 = of_nat (keyword_matches c k) / of_nat (length (content_tokens c)) * 100"
    by (simp add: Y_def exact_hundredths_def)
  ultimately show ?thesis
    using assms(1) by (simp add: calculateKeywordDensity_tokens R_def js_div_def)
qed

text \<open>
  C5, as amended. \<open>calculateKeywordDensity\<close> lower-cases the content and the keyword, takes
  the whitespace-delimited non-empty tokens of the content, counts those that contain the
  keyword as a substring, and returns the double nearest to \<open>R / 100\<close>, where \<open>R\<close>, between 0
  and 10000, is the integer to which \<open>Math.round\<close> takes the double-precision product
  \<open>matches / tokens * 100 * 100\<close>. For fewer than \<open>2^32\<close> tokens \<open>R\<close> is the exact number of
  hundredths rounded to the nearest integer, except that an exact number ending in one half
  may be rounded down instead of up. So the result is the percentage rounded to two decimals
  whenever the exact number of hundredths does not end in one half, and it is always within
  half a hundredth (and one rounding of a double) of the exact percentage. The result is 0
  when there is no token and always lies between 0 and 100. Being a function of the two
  strings, it gives equal results on equal inputs.
\<close>

theorem calculateKeywordDensity_amended:
  "calculateKeywordDensity c k =
     (if content_tokens c = [] then 0 else js_div (of_int (density_hundredths c k)) 100)
   \<and> (content_tokens c \<noteq> [] \<longrightarrow>
        0 \<le> density_hundredths c k \<and> density_hundredths c k \<le> 10000)
   \<and> (content_tokens c \<noteq> [] \<and> length (content_tokens c) < 2 ^ 32 \<longrightarrow>
        (density_hundredths c k = round (exact_hundredths c k)
         \<or> frac (exact_hundredths c k) = 1 / 2
           \<and> density_hundredths c k = round (exact_hundredths c k) - 1)
        \<and> \<bar>calculateKeywordDensity c k
             - of_nat (keyword_matches c k) / of_nat (length (content_tokens c)) * 100\<bar>
           \<le> 1 / 200 + 1 / 2 ^ 46)
   \<and> (length (content_tokens c) < 2 ^ 32 \<and> frac (exact_hundredths c k) \<noteq> 1 / 2 \<longrightarrow>
        calculateKeywordDensity c k = claimed_density c k)
   \<and> 0 \<le> calculateKeywordDensity c k \<and> calculateKeywordDensity c k \<le> 100"
  using calculateKeywordDensity_tokens [of c k] density_hundredths_bounds [of c k]
    density_hundredths_nearest [of c k] calculateKeywordDensity_near [of c k]
    calculateKeywordDensity_claimed [of c k] calculateKeywordDensity_bounds [of c k]
  by blast

text \<open>
  C5 as stated fails on a content of 160 tokens of which 23 hold the keyword. The exact
  percentage is 14.375, that is 1437.5 hundredths, which every rounding to the nearest
  takes to 1438; the double-precision product is just below 1437.5, so the code reaches
  1437 hundredths and returns 14.37 where the statement gives 14.38.
\<close>

theorem calculateKeywordDensity_counterexample:
  "length (content_tokens tie_content) = 160
   \<and> keyword_matches tie_content ''seo'' = 23
   \<and> exact_hundredths tie_content ''seo'' = 2875 / 2
   \<and> round (exact_hundredths tie_content ''seo'') = 1438
   \<and> density_hundredths tie_content ''seo'' = 1437
   \<and> calculateKeywordDensity tie_content ''seo'' = js_div 1437 100
   \<and> claimed_density tie_content ''seo'' = js_div 1438 100
   \<and> calculateKeywordDensity tie_content ''seo'' \<noteq> claimed_density tie_content ''seo''"
proof -
  note n = tie_content_counts
  have t: "content_tokens tie_content \<noteq> []" using n(1) by auto
  have x: "exact_hundredths tie_content ''seo'' = 2875 / 2"
    unfolding exact_hundredths_def n by simp
  have r: "round (2875 / 2 :: rat) = 1438" by code_simp
  have h: "Math_round (js_mul (js_mul (js_div 23 160) 100) 100) = 1437" by code_simp
  have d: "density_hundredths tie_content ''seo'' = 1437"
    unfolding density_hundredths_def n using h by simp
  have v: "js_div 1437 100 \<noteq> js_div 1438 100" by code_simp
  have a: "calculateKeywordDensity tie_content ''seo'' = js_div 1437 100"
    using t by (simp add: calculateKeywordDensity_tokens d)
  have b: "claimed_density tie_content ''seo'' = js_div 1438 100"
    using t by (simp add: claimed_density_def x r)
  have r': "round (exact_hundredths tie_content ''seo'') = 1438"
    unfolding x by (rule r)
  have ne: "calculateKeywordDensity tie_content ''seo'' \<noteq> claimed_density tie_content ''seo''"
    unfolding a b by (rule v)
  show ?thesis
    by (intro conjI n x r' d a b ne)
qed

theorem calculateKeywordDensity_amended_witness:
  "content_tokens ''SEO tips: learn Seo fast'' = [''seo'', ''tips:'', ''learn'', ''seo'', ''fast'']
   \<and> keyword_matches ''SEO tips: learn Seo fast'' ''seo'' = 2
   \<and> exact_hundredths ''SEO tips: learn Seo fast'' ''seo'' = 4000
   \<and> claimed_density ''SEO tips: learn Seo fast'' ''seo'' = 40
   \<and> calculateKeywordDensity ''SEO tips: learn Seo fast'' ''seo'' = 40"
proof -
  let ?c = "''SEO tips: learn Seo fast''"
  have t: "content_tokens ?c = [''seo'', ''tips:'', ''learn'', ''seo'', ''fast'']"
    by code_simp
  have m: "keyword_matches ?c ''seo'' = 2"
    by code_simp
  have x: "exact_hundredths ?c ''seo'' = 4000"
    unfolding exact_hundredths_def m t by simp
  have f: "frac (4000 :: rat) \<noteq> 1 / 2" by code_simp
  have r: "round (4000 :: rat) = 4000" by code_simp
  have v: "js_div 4000 100 = 40" by code_simp
  have d: "claimed_density ?c ''seo'' = 40"
    unfolding claimed_density_def x r t using v by simp
  have l: "length (content_tokens ?c) < 2 ^ 32" unfolding t by simp
  have "calculateKeywordDensity ?c ''seo'' = claimed_density ?c ''seo''"
    using calculateKeywordDensity_amended [of ?c "''seo''"] l f unfolding x by blast
  with t m x d show ?thesis by simp
qed

lemma checkKeywordInFirstParagraph_eq:
  "checkKeywordInFirstParagraph c kw =
     sublist (toLowerCase kw)
       (toLowerCase (if before_blank_line c = [] then c else before_blank_line c))"
proof -
  obtain ps where "String_split blank_lines c = before_blank_line c # ps"
    using String_split_blank_lines [of c] by blast
  then show ?thesis
    by (simp add: checkKeywordInFirstParagraph_def Let_def String_includes_iff)
qed

text \<open>
  C9, as amended. The first-paragraph check looks for the lower-cased keyword in the
  lower-cased first segment of the content split on blank lines, or in the whole content
  when that first segment is empty (the content is empty or begins with a blank-line
  separator). Whenever the first segment is not empty this is the check as the
  specification words it.
\<close>

theorem checkKeywordInFirstParagraph_amended:
  "checkKeywordInFirstParagraph c kw =
     sublist (toLowerCase kw)
       (toLowerCase (if before_blank_line c = [] then c else before_blank_line c))
   \<and> (before_blank_line c \<noteq> [] \<longrightarrow>
        checkKeywordInFirstParagraph c kw = claimed_inFirstParagraph c kw)"
  by (simp add: checkKeywordInFirstParagraph_eq claimed_inFirstParagraph_def)

text \<open>
  C9 as stated fails on a content that begins with a blank line: its first segment is
  empty and does not contain the keyword, yet the check succeeds, because the whole content
  is searched.
\<close>

theorem checkKeywordInFirstParagraph_counterexample:
  "checkKeywordInFirstParagraph ([LF, LF] @ ''seo tips'') ''seo''
     \<noteq> claimed_inFirstParagraph ([LF, LF] @ ''seo tips'') ''seo''"
  by code_simp

theorem checkKeywordInFirstParagraph_amended_witness:
  "before_blank_line (''Intro on SEO.'' @ [LF, LF] @ ''Body'') = ''Intro on SEO.''
   \<and> checkKeywordInFirstParagraph (''Intro on SEO.'' @ [LF, LF] @ ''Body'') ''seo''
   \<and> claimed_inFirstParagraph (''Intro on SEO.'' @ [LF, LF] @ ''Body'') ''seo''"
proof -
  have b: "before_blank_line (''Intro on SEO.'' @ [LF, LF] @ ''Body'') = ''Intro on SEO.''"
    by code_simp
  have c: "checkKeywordInFirstParagraph (''Intro on SEO.'' @ [LF, LF] @ ''Body'') ''seo''"
    by code_simp
  have "before_blank_line (''Intro on SEO.'' @ [LF, LF] @ ''Body'') \<noteq> []"
    unfolding b by simp
  with checkKeywordInFirstParagraph_amended [of "''Intro on SEO.'' @ [LF, LF] @ ''Body''" "''seo''"] c
  have "claimed_inFirstParagraph (''Intro on SEO.'' @ [LF, LF] @ ''Body'') ''seo''"
    by blast
  with b c show ?thesis by blast
qed

section \<open>The checks of the analysis\<close>

lemma checks_analyzeSEO:
  "checks (analyzeSEO p) =
     \<lparr> SEOChecks.keywordDensity = checkKeywordDensity (content p) (keyword p),
       keywordInTitle = String_includes (toLowerCase (title p)) (toLowerCase (keyword p)),
       keywordInMetaDescription =
         String_includes (toLowerCase (case metaDescription p of None \<Rightarrow> [] | Some m \<Rightarrow> m))
           (toLowerCase (keyword p)),
       keywordInH1 =
         list_ex (\<lambda>h. level h = 1
                    \<and> String_includes (toLowerCase (heading.text h)) (toLowerCase (keyword p)))
           (headings p),
       keywordInFirstParagraph = checkKeywordInFirstParagraph (content p) (keyword p),
       titleLength = (length (title p) \<ge> 30 \<and> length (title p) \<le> 60),
       metaDescriptionLength =
         (length (case metaDescription p of None \<Rightarrow> [] | Some m \<Rightarrow> m) \<ge> 120
          \<and> length (case metaDescription p of None \<Rightarrow> [] | Some m \<Rightarrow> m) \<le> 160),
       headingStructure = validateHeadingStructure (headings p),
       internalLinkCount =
         (length (case internalLinks p of None \<Rightarrow> [] | Some l \<Rightarrow> l) \<ge> 3
          \<and> length (case internalLinks p of None \<Rightarrow> [] | Some l \<Rightarrow> l) \<le> 7),
       externalLinkCount = (length (case externalLinks p of None \<Rightarrow> [] | Some l \<Rightarrow> l) \<ge> 3),
       SEOChecks.wordCount = (wordCount p \<ge> 2000),
       SEOChecks.readabilityScore = (readabilityScore p \<ge> 60),
       hasFAQs = (length (case faqs p of None \<Rightarrow> [] | Some f \<Rightarrow> f) \<ge> 3),
       hasCallToAction =
         (sublist ''cta'' (toLowerCase (content p))
          \<or> sublist ''call to action'' (toLowerCase (content p))
          \<or> sublist ''get started'' (toLowerCase (content p))
          \<or> sublist ''learn more'' (toLowerCase (content p))),
       hasImages = (sublist ''<img'' (content p) \<or> sublist ''!['' (content p)),
       imageAltTags =
         (sublist ''alt='' (content p) \<or> match_all markdown_image (content p) \<noteq> []) \<rparr>"
  unfolding analyzeSEO_def Let_def String_match_def
    TARGET_TITLE_LENGTH_min_def TARGET_TITLE_LENGTH_max_def
    TARGET_META_DESCRIPTION_LENGTH_min_def TARGET_META_DESCRIPTION_LENGTH_max_def
    TARGET_INTERNAL_LINKS_min_def TARGET_INTERNAL_LINKS_max_def TARGET_EXTERNAL_LINKS_min_def
    TARGET_WORD_COUNT_def TARGET_READABILITY_SCORE_def
  by (simp add: String_includes_iff split: list.split)

lemma toLowerCase_Nil: "toLowerCase [] = []"
  by (simp add: toLowerCase_def)

lemma density_empty_keyword:
  "tokens isWhiteSpace (toLowerCase c) \<noteq> [] \<Longrightarrow> calculateKeywordDensity c [] = 100"
proof -
  assume n: "tokens isWhiteSpace (toLowerCase c) \<noteq> []"
  then have t: "content_tokens c \<noteq> []" by (simp add: content_tokens_def)
  have m: "keyword_matches c [] = length (content_tokens c)"
    by (simp add: keyword_matches_def toLowerCase_Nil)
  have "(of_nat (length (content_tokens c)) :: rat) \<noteq> 0" using t by simp
  then have q: "js_div (of_nat (length (content_tokens c))) (of_nat (length (content_tokens c))) = 1"
    by (simp add: js_div_def fl_small)
  have r: "Math_round 10000 = 10000" unfolding Math_round_def by code_simp
  have "density_hundredths c [] = 10000"
    unfolding density_hundredths_def m q by (simp add: js_mul_def fl_small r)
  then show ?thesis
    using t by (simp add: calculateKeywordDensity_tokens js_div_def fl_small)
qed

lemma checkKeywordDensity_empty_keyword: "\<not> checkKeywordDensity c []"
proof (cases "tokens isWhiteSpace (toLowerCase c) = []")
  case True
  then have "calculateKeywordDensity c [] = 0"
    by (simp add: calculateKeywordDensity_tokens content_tokens_def)
  then show ?thesis
    by (simp add: checkKeywordDensity_def TARGET_KEYWORD_DENSITY_min_def)
next
  case False
  then have "calculateKeywordDensity c [] = 100" by (rule density_empty_keyword)
  then show ?thesis
    by (simp add: checkKeywordDensity_def TARGET_KEYWORD_DENSITY_max_def)
qed

text \<open>
  C10. With the empty string as keyword, the checks \<open>keywordInTitle\<close>,
  \<open>keywordInMetaDescription\<close> and \<open>keywordInFirstParagraph\<close> hold for every artifact,
  \<open>keywordInH1\<close> holds exactly when some heading has level 1, the keyword density of a
  content with at least one whitespace-delimited token is 100, and the \<open>keywordDensity\<close>
  check fails (for every content, the empty one included).
\<close>

theorem empty_keyword:
  assumes "keyword p = []"
  shows "keywordInTitle (checks (analyzeSEO p))
       \<and> keywordInMetaDescription (checks (analyzeSEO p))
       \<and> keywordInFirstParagraph (checks (analyzeSEO p))
       \<and> (keywordInH1 (checks (analyzeSEO p)) \<longleftrightarrow> (\<exists>h\<in>set (headings p). level h = 1))
       \<and> (content_tokens (content p) \<noteq> [] \<longrightarrow>
            calculateKeywordDensity (content p) (keyword p) = 100
            \<and> SEOAnalysis.keywordDensity (analyzeSEO p) = 100)
       \<and> \<not> SEOChecks.keywordDensity (checks (analyzeSEO p))"
  using assms
  by (simp add: checks_analyzeSEO toLowerCase_Nil checkKeywordInFirstParagraph_eq list_ex_iff
      content_tokens_def String_includes_iff density_empty_keyword
      checkKeywordDensity_empty_keyword keywordDensity_analyzeSEO)

theorem empty_keyword_witness:
  "keyword (sample_artifact\<lparr> keyword := [] \<rparr>) = []
   \<and> content_tokens (content (sample_artifact\<lparr> keyword := [] \<rparr>)) \<noteq> []
   \<and> keywordInTitle (checks (analyzeSEO (sample_artifact\<lparr> keyword := [] \<rparr>)))
   \<and> keywordInH1 (checks (analyzeSEO (sample_artifact\<lparr> keyword := [] \<rparr>)))
   \<and> SEOAnalysis.keywordDensity (analyzeSEO (sample_artifact\<lparr> keyword := [] \<rparr>)) = 100
   \<and> \<not> SEOChecks.keywordDensity (checks (analyzeSEO (sample_artifact\<lparr> keyword := [] \<rparr>)))"
proof -
  let ?a = "sample_artifact\<lparr> keyword := [] \<rparr>"
  have k: "keyword ?a = []" by simp
  have t: "content_tokens (content ?a) \<noteq> []"
    by (simp add: content_tokens_def sample_artifact_def sample_content_def toLowerCase_def
        toLowerChar_def isWhiteSpace_def)
  have h: "\<exists>h\<in>set (headings ?a). level h = 1"
    by (simp add: sample_artifact_def)
  show ?thesis
    using empty_keyword [OF k] k t h by blast
qed

section \<open>The analysis of an empty artifact\<close>

lemma toLowerCase_eq_Nil: "toLowerCase s = [] \<longleftrightarrow> s = []"
  by (simp add: toLowerCase_def)

lemma calculateKeywordDensity_Nil: "calculateKeywordDensity [] kw = 0"
  by (simp add: calculateKeywordDensity_tokens content_tokens_def toLowerCase_Nil)

lemma checkKeywordDensity_Nil: "\<not> checkKeywordDensity [] kw"
  by (simp add: checkKeywordDensity_def calculateKeywordDensity_Nil
      TARGET_KEYWORD_DENSITY_min_def)

lemma checkKeywordInFirstParagraph_Nil: "checkKeywordInFirstParagraph [] kw \<longleftrightarrow> kw = []"
  by (simp add: checkKeywordInFirstParagraph_eq toLowerCase_Nil toLowerCase_eq_Nil)

lemma markdown_image_Nil: "markdown_image [] = None"
  by (simp add: markdown_image_def lit_def)

lemma floor_half: "\<lfloor>1 / 2 :: rat\<rfloor> = 0"
  by code_simp

lemma score_few_passed:
  assumes "k \<le> 5"
  shows "Math_round (of_nat k / of_nat 16 * 100) \<le> 31
         \<and> (Math_round (of_nat k / of_nat 16 * 100) = 0 \<longleftrightarrow> k = 0)"
proof -
  have "(of_nat k :: rat) \<le> 5" using assms by simp
  then have "(of_nat k :: rat) / of_nat 16 * 100 + 1 / 2 < of_int 31 + 1" by simp
  then have u: "Math_round (of_nat k / of_nat 16 * 100) \<le> 31"
    unfolding Math_round_def by (simp only: floor_le_iff)
  have z: "Math_round (of_nat k / of_nat 16 * 100) = 0 \<longleftrightarrow> k = 0"
  proof (cases "k = 0")
    case True
    then show ?thesis by (simp add: Math_round_def floor_half)
  next
    case False
    then have "(1 :: rat) \<le> of_nat k" by simp
    then have "of_int 1 \<le> (of_nat k :: rat) / of_nat 16 * 100 + 1 / 2" by simp
    then have "1 \<le> Math_round (of_nat k / of_nat 16 * 100)"
      unfolding Math_round_def by (simp only: le_floor_iff)
    then show ?thesis using False by simp
  qed
  show ?thesis using u z by blast
qed

lemma empty_artifact_all:
  assumes "content p = []" and "headings p = []"
    and "metaDescription p = None \<or> metaDescription p = Some []"
    and "faqs p = None \<or> faqs p = Some []"
    and "internalLinks p = None \<or> internalLinks p = Some []"
    and "externalLinks p = None \<or> externalLinks p = Some []"
    and "wordCount p = 0"
  shows "SEOAnalysis.keywordDensity (analyzeSEO p) = 0
       \<and> \<not> SEOChecks.keywordDensity (checks (analyzeSEO p))
       \<and> \<not> keywordInH1 (checks (analyzeSEO p))
       \<and> \<not> metaDescriptionLength (checks (analyzeSEO p))
       \<and> \<not> headingStructure (checks (analyzeSEO p))
       \<and> \<not> internalLinkCount (checks (analyzeSEO p))
       \<and> \<not> externalLinkCount (checks (analyzeSEO p))
       \<and> \<not> SEOChecks.wordCount (checks (analyzeSEO p))
       \<and> \<not> hasFAQs (checks (analyzeSEO p))
       \<and> \<not> hasCallToAction (checks (analyzeSEO p))
       \<and> \<not> hasImages (checks (analyzeSEO p))
       \<and> \<not> imageAltTags (checks (analyzeSEO p))
       \<and> (keywordInMetaDescription (checks (analyzeSEO p)) \<longleftrightarrow> keyword p = [])
       \<and> (keywordInFirstParagraph (checks (analyzeSEO p)) \<longleftrightarrow> keyword p = [])
       \<and> score (analyzeSEO p) =
           round (100 * of_nat (length (filter (\<lambda>v. v)
                    [keywordInTitle (checks (analyzeSEO p)),
                     keywordInMetaDescription (checks (analyzeSEO p)),
                     keywordInFirstParagraph (checks (analyzeSEO p)),
                     titleLength (checks (analyzeSEO p)),
                     SEOChecks.readabilityScore (checks (analyzeSEO p))])) / 16 :: rat)
       \<and> score (analyzeSEO p) \<le> 31
       \<and> (score (analyzeSEO p) = 0 \<longleftrightarrow>
            \<not> keywordInTitle (checks (analyzeSEO p)) \<and> keyword p \<noteq> []
            \<and> \<not> titleLength (checks (analyzeSEO p))
            \<and> \<not> SEOChecks.readabilityScore (checks (analyzeSEO p)))"
proof -
  let ?cs = "checks (analyzeSEO p)"
  have d: "SEOAnalysis.keywordDensity (analyzeSEO p) = 0"
    using assms(1) by (simp add: keywordDensity_analyzeSEO calculateKeywordDensity_Nil)
  have f: "\<not> SEOChecks.keywordDensity ?cs" "\<not> keywordInH1 ?cs" "\<not> metaDescriptionLength ?cs"
    "\<not> headingStructure ?cs" "\<not> internalLinkCount ?cs" "\<not> externalLinkCount ?cs"
    "\<not> SEOChecks.wordCount ?cs" "\<not> hasFAQs ?cs" "\<not> hasCallToAction ?cs" "\<not> hasImages ?cs"
    "\<not> imageAltTags ?cs"
    using assms
    by (auto simp add: checks_analyzeSEO checkKeywordDensity_Nil validateHeadingStructure_def
        toLowerCase_Nil markdown_image_Nil)
  have m: "keywordInMetaDescription ?cs \<longleftrightarrow> keyword p = []"
    using assms(3) by (auto simp add: checks_analyzeSEO toLowerCase_Nil toLowerCase_eq_Nil)
  have g: "keywordInFirstParagraph ?cs \<longleftrightarrow> keyword p = []"
    using assms(1) by (simp add: checks_analyzeSEO checkKeywordInFirstParagraph_Nil)
  let ?five = "[keywordInTitle ?cs, keywordInMetaDescription ?cs, keywordInFirstParagraph ?cs,
                titleLength ?cs, SEOChecks.readabilityScore ?cs]"
  have v: "length (filter (\<lambda>v. v) (Object_values ?cs)) = length (filter (\<lambda>v. v) ?five)"
    unfolding Object_values_def using f by simp
  have s: "score (analyzeSEO p) = Math_round (of_nat (length (filter (\<lambda>v. v) ?five)) / of_nat 16 * 100)"
    by (simp only: score_analyzeSEO calculateSEOScore_eq v)
  have k: "length (filter (\<lambda>v. v) ?five) \<le> 5"
    using length_filter_le [of "\<lambda>v. v" ?five] by simp
  have z: "length (filter (\<lambda>v. v) ?five) = 0 \<longleftrightarrow>
             \<not> keywordInTitle ?cs \<and> keyword p \<noteq> [] \<and> \<not> titleLength ?cs
             \<and> \<not> SEOChecks.readabilityScore ?cs"
    using m g by auto
  have r: "score (analyzeSEO p) = round (100 * of_nat (length (filter (\<lambda>v. v) ?five)) / 16 :: rat)"
    unfolding s by (simp add: Math_round_def round_def)
  show ?thesis
    using d f m g r score_few_passed [OF k] z unfolding s by blast
qed


text \<open>
  C7, as amended. \<open>analyzeSEO\<close> is a total function: every operation of the source is
  defined on every value of its type, the result \<open>null\<close> of \<open>match\<close> being absorbed by the
  optional chaining. Each empty field fails the checks that read it: empty content gives
  keyword density 0 and fails the density, call-to-action, image and alt-text checks; no
  headings fail the H1 and structure checks; an empty or absent meta description, FAQ list
  or link list, and word count 0, fail the checks on them. The keyword checks on an empty
  text hold exactly for the empty keyword. When all these fields are empty, the score is the
  rounded share of the five checks that can still pass, at most 31, and it is 0 exactly when
  the keyword is not empty and is not in the title, the title length is out of range and
  the readability is below the target. For any content, \<open>imageAltTags\<close> is false when
  \<open>match\<close> finds no Markdown image and the content has no \<open>alt=\<close>.
\<close>

theorem analyzeSEO_empty_artifact:
  "(content p = [] \<longrightarrow>
      SEOAnalysis.keywordDensity (analyzeSEO p) = 0
      \<and> \<not> SEOChecks.keywordDensity (checks (analyzeSEO p))
      \<and> \<not> hasCallToAction (checks (analyzeSEO p))
      \<and> \<not> hasImages (checks (analyzeSEO p))
      \<and> \<not> imageAltTags (checks (analyzeSEO p))
      \<and> (keywordInFirstParagraph (checks (analyzeSEO p)) \<longleftrightarrow> keyword p = []))
   \<and> (headings p = [] \<longrightarrow>
        \<not> keywordInH1 (checks (analyzeSEO p)) \<and> \<not> headingStructure (checks (analyzeSEO p)))
   \<and> (metaDescription p = None \<or> metaDescription p = Some [] \<longrightarrow>
        \<not> metaDescriptionLength (checks (analyzeSEO p))
        \<and> (keywordInMetaDescription (checks (analyzeSEO p)) \<longleftrightarrow> keyword p = []))
   \<and> (faqs p = None \<or> faqs p = Some [] \<longrightarrow> \<not> hasFAQs (checks (analyzeSEO p)))
   \<and> (internalLinks p = None \<or> internalLinks p = Some [] \<longrightarrow>
        \<not> internalLinkCount (checks (analyzeSEO p)))
   \<and> (externalLinks p = None \<or> externalLinks p = Some [] \<longrightarrow>
        \<not> externalLinkCount (checks (analyzeSEO p)))
   \<and> (wordCount p = 0 \<longrightarrow> \<not> SEOChecks.wordCount (checks (analyzeSEO p)))
   \<and> (content p = [] \<and> headings p = []
        \<and> (metaDescription p = None \<or> metaDescription p = Some [])
        \<and> (faqs p = None \<or> faqs p = Some [])
        \<and> (internalLinks p = None \<or> internalLinks p = Some [])
        \<and> (externalLinks p = None \<or> externalLinks p = Some [])
        \<and> wordCount p = 0 \<longrightarrow>
        score (analyzeSEO p) =
          round (100 * of_nat (length (filter (\<lambda>v. v)
                   [keywordInTitle (checks (analyzeSEO p)),
                    keywordInMetaDescription (checks (analyzeSEO p)),
                    keywordInFirstParagraph (checks (analyzeSEO p)),
                    titleLength (checks (analyzeSEO p)),
                    SEOChecks.readabilityScore (checks (analyzeSEO p))])) / 16 :: rat)
        \<and> score (analyzeSEO p) \<le> 31
        \<and> (score (analyzeSEO p) = 0 \<longleftrightarrow>
             \<not> keywordInTitle (checks (analyzeSEO p)) \<and> keyword p \<noteq> []
             \<and> \<not> titleLength (checks (analyzeSEO p))
             \<and> \<not> SEOChecks.readabilityScore (checks (analyzeSEO p))))
   \<and> (String_match markdown_image (content p) = None \<and> \<not> sublist ''alt='' (content p) \<longrightarrow>
        \<not> imageAltTags (checks (analyzeSEO p)))"
proof -
  let ?cs = "checks (analyzeSEO p)"
  have 1: "content p = [] \<longrightarrow>
      SEOAnalysis.keywordDensity (analyzeSEO p) = 0 \<and> \<not> SEOChecks.keywordDensity ?cs
      \<and> \<not> hasCallToAction ?cs \<and> \<not> hasImages ?cs \<and> \<not> imageAltTags ?cs
      \<and> (keywordInFirstParagraph ?cs \<longleftrightarrow> keyword p = [])"
    by (simp add: keywordDensity_analyzeSEO calculateKeywordDensity_Nil checks_analyzeSEO
        checkKeywordDensity_Nil toLowerCase_Nil markdown_image_Nil
        checkKeywordInFirstParagraph_Nil)
  have 2: "headings p = [] \<longrightarrow> \<not> keywordInH1 ?cs \<and> \<not> headingStructure ?cs"
    by (simp add: checks_analyzeSEO validateHeadingStructure_def)
  have 3: "metaDescription p = None \<or> metaDescription p = Some [] \<longrightarrow>
        \<not> metaDescriptionLength ?cs \<and> (keywordInMetaDescription ?cs \<longleftrightarrow> keyword p = [])"
    by (auto simp add: checks_analyzeSEO toLowerCase_Nil toLowerCase_eq_Nil)
  have 4: "faqs p = None \<or> faqs p = Some [] \<longrightarrow> \<not> hasFAQs ?cs"
    by (auto simp add: checks_analyzeSEO)
  have 5: "internalLinks p = None \<or> internalLinks p = Some [] \<longrightarrow> \<not> internalLinkCount ?cs"
    by (auto simp add: checks_analyzeSEO)
  have 6: "externalLinks p = None \<or> externalLinks p = Some [] \<longrightarrow> \<not> externalLinkCount ?cs"
    by (auto simp add: checks_analyzeSEO)
  have 7: "wordCount p = 0 \<longrightarrow> \<not> SEOChecks.wordCount ?cs"
    by (simp add: checks_analyzeSEO)
  have 8: "String_match markdown_image (content p) = None \<and> \<not> sublist ''alt='' (content p)
             \<longrightarrow> \<not> imageAltTags ?cs"
    by (simp add: checks_analyzeSEO String_match_def split: list.splits)
  show ?thesis
    using 1 2 3 4 5 6 7 8 empty_artifact_all [of p] by blast
qed

theorem analyzeSEO_empty_artifact_witness:
  "content (empty_artifact ''Notes'' ''seo'' 0) = []
   \<and> headings (empty_artifact ''Notes'' ''seo'' 0) = []
   \<and> metaDescription (empty_artifact ''Notes'' ''seo'' 0) = None
   \<and> faqs (empty_artifact ''Notes'' ''seo'' 0) = None
   \<and> internalLinks (empty_artifact ''Notes'' ''seo'' 0) = None
   \<and> externalLinks (empty_artifact ''Notes'' ''seo'' 0) = None
   \<and> wordCount (empty_artifact ''Notes'' ''seo'' 0) = 0
   \<and> SEOAnalysis.keywordDensity (analyzeSEO (empty_artifact ''Notes'' ''seo'' 0)) = 0
   \<and> score (analyzeSEO (empty_artifact ''Notes'' ''seo'' 0)) = 0"
proof -
  let ?a = "empty_artifact ''Notes'' ''seo'' 0"
  have h: "content ?a = []" "headings ?a = []" "metaDescription ?a = None" "faqs ?a = None"
    "internalLinks ?a = None" "externalLinks ?a = None" "wordCount ?a = 0" "keyword ?a \<noteq> []"
    by (simp_all add: empty_artifact_def)
  have c: "\<not> keywordInTitle (checks (analyzeSEO ?a))" "\<not> titleLength (checks (analyzeSEO ?a))"
    "\<not> SEOChecks.readabilityScore (checks (analyzeSEO ?a))"
    by code_simp+
  show ?thesis
    using analyzeSEO_empty_artifact [of ?a] h c by blast
qed

text \<open>
  C7 as stated fails: with every field the claim lists empty, the score is 19 and not 0,
  both for an empty title and keyword (three checks hold for the empty keyword) and for a
  title of 45 characters that holds the keyword, with readability 70.
\<close>

theorem analyzeSEO_empty_artifact_counterexample:
  "content (empty_artifact [] [] 0) = []
   \<and> headings (empty_artifact [] [] 0) = []
   \<and> metaDescription (empty_artifact [] [] 0) = None
   \<and> faqs (empty_artifact [] [] 0) = None
   \<and> internalLinks (empty_artifact [] [] 0) = None
   \<and> externalLinks (empty_artifact [] [] 0) = None
   \<and> wordCount (empty_artifact [] [] 0) = 0
   \<and> score (analyzeSEO (empty_artifact [] [] 0)) = 19
   \<and> score (analyzeSEO (empty_artifact ''Practical SEO guide for small business owners'' ''seo'' 70))
       = 19"
  by code_simp

section \<open>The two scenarios\<close>

lemma lit_append: "lit t k (t @ r) = map_option (\<lambda>n. length t + n) (k r)"
  by (simp add: lit_def)

lemma lazy_dot_skip:
  "\<forall>c\<in>set a. \<not> isLineTerminator c \<Longrightarrow> k r \<noteq> None \<Longrightarrow> lazy_dot k (a @ r) \<noteq> None"
proof (induction a)
  case Nil
  then show ?case by (cases r) (auto split: option.splits)
next
  case (Cons c a)
  then show ?case by (auto split: option.splits)
qed

lemma markdown_image_matches:
  assumes "\<forall>c\<in>set (alt @ src). \<not> isLineTerminator c"
  shows "markdown_image (''!['' @ alt @ '']('' @ src @ '')'' @ post) \<noteq> None"
proof -
  have 1: "lit '')'' accept ('')'' @ post) \<noteq> None"
    by (simp only: lit_append) (simp add: accept_def)
  have 2: "lazy_dot (lit '')'' accept) (src @ '')'' @ post) \<noteq> None"
    using assms 1 by (intro lazy_dot_skip) auto
  have 3: "lit '']('' (lazy_dot (lit '')'' accept)) ('']('' @ src @ '')'' @ post) \<noteq> None"
    using 2 by (simp only: lit_append) simp
  have 4: "lazy_dot (lit '']('' (lazy_dot (lit '')'' accept))) (alt @ '']('' @ src @ '')'' @ post)
             \<noteq> None"
    using assms 3 by (intro lazy_dot_skip) auto
  show ?thesis
    unfolding markdown_image_def using 4 by (simp only: lit_append) simp
qed

lemma match_all_found: "m t \<noteq> None \<Longrightarrow> match_all m (pre @ t) \<noteq> []"
proof (induction pre)
  case Nil
  then show ?case by (cases t) (auto split: option.splits)
next
  case (Cons c pre)
  then show ?case by (auto split: option.splits)
qed

lemma Math_round_14: "Math_round (of_nat 14 / of_nat 16 * 100) = 88"
  by code_simp

lemma Math_round_16: "Math_round (of_nat 16 / of_nat 16 * 100) = 100"
  by code_simp

text \<open>
  C6. An artifact with a title of 45 characters, a meta description of 140, word count
  2200, keyword density 2, 5 internal and 4 external links, readability 70, 3 FAQs, one of
  the four call-to-action phrases, a Markdown image \<open>![alt](src)\<close> (alt and src on one
  line), the headings H1, H2, and the keyword in the title, the meta description, the H1
  and the first paragraph, has score 100 and no recommendation. The same artifact with word
  count 500 and no FAQs (absent or empty) fails exactly the checks \<open>wordCount\<close> and
  \<open>hasFAQs\<close>: its score is 88 and its recommendations are the word-count message followed
  by the FAQ message.
\<close>

theorem analyzeSEO_scenarios:
  assumes "length (title p) = 45"
    and "metaDescription p = Some md" and "length md = 140"
    and "wordCount p = 2200"
    and "calculateKeywordDensity (content p) (keyword p) = 2"
    and "internalLinks p = Some il" and "length il = 5"
    and "externalLinks p = Some el" and "length el = 4"
    and "readabilityScore p = 70"
    and "faqs p = Some fs" and "length fs = 3"
    and "sublist ''cta'' (toLowerCase (content p))
         \<or> sublist ''call to action'' (toLowerCase (content p))
         \<or> sublist ''get started'' (toLowerCase (content p))
         \<or> sublist ''learn more'' (toLowerCase (content p))"
    and "content p = pre @ ''!['' @ alt @ '']('' @ src @ '')'' @ post"
    and "\<forall>c\<in>set (alt @ src). \<not> isLineTerminator c"
    and "headings p = [h1, h2]" and "level h1 = 1" and "level h2 = 2"
    and "sublist (toLowerCase (keyword p)) (toLowerCase (title p))"
    and "sublist (toLowerCase (keyword p)) (toLowerCase md)"
    and "sublist (toLowerCase (keyword p)) (toLowerCase (heading.text h1))"
    and "sublist (toLowerCase (keyword p)) (toLowerCase (before_blank_line (content p)))"
    and "nf = None \<or> nf = Some []"
  shows "score (analyzeSEO p) = 100
       \<and> recommendations (analyzeSEO p) = []
       \<and> Object_values (checks (analyzeSEO (p\<lparr> wordCount := 500, faqs := nf \<rparr>))) =
           [True, True, True, True, True, True, True, True, True, True, False, True, False,
            True, True, True]
       \<and> score (analyzeSEO (p\<lparr> wordCount := 500, faqs := nf \<rparr>)) = 88
       \<and> recommendations (analyzeSEO (p\<lparr> wordCount := 500, faqs := nf \<rparr>)) =
           [WordCountMsg 2000, FAQMsg]"
proof -
  let ?q = "p\<lparr> wordCount := 500, faqs := nf \<rparr>"
  have kd: "checkKeywordDensity (content p) (keyword p)"
    using assms(5)
    by (simp add: checkKeywordDensity_def TARGET_KEYWORD_DENSITY_min_def
        TARGET_KEYWORD_DENSITY_max_def)
  have fp: "checkKeywordInFirstParagraph (content p) (keyword p)"
  proof (cases "before_blank_line (content p) = []")
    case True
    with assms(22) have "toLowerCase (keyword p) = []" by (simp add: toLowerCase_Nil)
    then show ?thesis by (simp add: checkKeywordInFirstParagraph_eq)
  next
    case False
    with assms(22) show ?thesis by (simp add: checkKeywordInFirstParagraph_eq)
  qed
  have hs: "validateHeadingStructure (headings p)"
    using assms(16-18) by (simp add: validateHeadingStructure_def)
  have h1: "list_ex (\<lambda>h. level h = 1
               \<and> String_includes (toLowerCase (heading.text h)) (toLowerCase (keyword p)))
             (headings p)"
    using assms(16,17,21) by (simp add: String_includes_iff)
  have im: "sublist ''!['' (content p)"
    unfolding assms(14) sublist_def by blast
  have "markdown_image (''!['' @ alt @ '']('' @ src @ '')'' @ post) \<noteq> None"
    using assms(15) by (rule markdown_image_matches)
  then have al: "match_all markdown_image (content p) \<noteq> []"
    unfolding assms(14) by (rule match_all_found)
  have cs: "checks (analyzeSEO p) =
      \<lparr> SEOChecks.keywordDensity = True, keywordInTitle = True, keywordInMetaDescription = True,
        keywordInH1 = True, keywordInFirstParagraph = True, titleLength = True,
        metaDescriptionLength = True, headingStructure = True, internalLinkCount = True,
        externalLinkCount = True, SEOChecks.wordCount = True, SEOChecks.readabilityScore = True,
        hasFAQs = True, hasCallToAction = True, hasImages = True, imageAltTags = True \<rparr>"
    unfolding checks_analyzeSEO
    using kd fp hs h1 im al assms(1-4,6-13,19,20) by (simp add: String_includes_iff)
  have cq: "checks (analyzeSEO ?q) =
      \<lparr> SEOChecks.keywordDensity = True, keywordInTitle = True, keywordInMetaDescription = True,
        keywordInH1 = True, keywordInFirstParagraph = True, titleLength = True,
        metaDescriptionLength = True, headingStructure = True, internalLinkCount = True,
        externalLinkCount = True, SEOChecks.wordCount = False, SEOChecks.readabilityScore = True,
        hasFAQs = False, hasCallToAction = True, hasImages = True, imageAltTags = True \<rparr>"
    unfolding checks_analyzeSEO
    using kd fp hs h1 im al assms(1-4,6-13,19,20,23) by (auto simp add: String_includes_iff)
  have s1: "score (analyzeSEO p) = 100"
    unfolding score_analyzeSEO calculateSEOScore_eq cs Object_values_def
    using Math_round_16 by simp
  have r1: "recommendations (analyzeSEO p) = []"
    unfolding recommendations_analyzeSEO generateRecommendations_table cs Object_values_def
      check_messages_def
    by (simp add: failed_messages_def)
  have v2: "Object_values (checks (analyzeSEO ?q)) =
           [True, True, True, True, True, True, True, True, True, True, False, True, False,
            True, True, True]"
    unfolding cq Object_values_def by simp
  have s2: "score (analyzeSEO ?q) = 88"
    unfolding score_analyzeSEO calculateSEOScore_eq v2
    using Math_round_14 by simp
  have r2: "recommendations (analyzeSEO ?q) = [WordCountMsg 2000, FAQMsg]"
    unfolding recommendations_analyzeSEO generateRecommendations_table v2 check_messages_def
    by (simp add: failed_messages_def)
  show ?thesis
    using s1 r1 v2 s2 r2 by blast
qed

theorem analyzeSEO_scenarios_witness:
  "length (title sample_artifact) = 45
   \<and> calculateKeywordDensity (content sample_artifact) (keyword sample_artifact) = 2
   \<and> wordCount sample_artifact = 2200
   \<and> readabilityScore sample_artifact = 70
   \<and> sublist ''learn more'' (toLowerCase (content sample_artifact))
   \<and> score (analyzeSEO sample_artifact) = 100
   \<and> recommendations (analyzeSEO sample_artifact) = []
   \<and> score (analyzeSEO (sample_artifact\<lparr> wordCount := 500, faqs := None \<rparr>)) = 88
   \<and> recommendations (analyzeSEO (sample_artifact\<lparr> wordCount := 500, faqs := None \<rparr>)) =
       [WordCountMsg 2000, FAQMsg]"
proof -
  let ?md = "''Learn how SEO works for small business sites: keywords, titles, links and '' @
             ''content that ranks, explained in simple steps you can apply today.''"
  let ?il = "[''/a'', ''/b'', ''/c'', ''/d'', ''/e'']"
  let ?el = "[\<lparr> url = ''https://a.example'', text = ''A'' \<rparr>,
              \<lparr> url = ''https://b.example'', text = ''B'' \<rparr>,
              \<lparr> url = ''https://c.example'', text = ''C'' \<rparr>,
              \<lparr> url = ''https://d.example'', text = ''D'' \<rparr>]"
  let ?fs = "[\<lparr> question = ''What is it?'', answer = ''Search work.'' \<rparr>,
              \<lparr> question = ''Is it slow?'', answer = ''It takes months.'' \<rparr>,
              \<lparr> question = ''Is it free?'', answer = ''Mostly.'' \<rparr>]"
  let ?pre = "''Good seo helps.'' @ [LF, LF] @ ''Learn more here: ''"
  let ?post = "'' Search traffic grows when pages answer real '' @
     ''questions with clear words and useful links so write short lines and keep each '' @
     ''page on one topic then check titles and headings and add links to related pages '' @
     ''before you publish the post right away''"
  let ?h1 = "\<lparr> level = 1, text = ''SEO for small business'' \<rparr>"
  let ?h2 = "\<lparr> level = 2, text = ''Where to start'' \<rparr>"
  have a1: "length (title sample_artifact) = 45" by code_simp
  have a2: "metaDescription sample_artifact = Some ?md" by (simp add: sample_artifact_def)
  have a3: "length ?md = 140" by simp
  have a4: "wordCount sample_artifact = 2200" by (simp add: sample_artifact_def)
  have a5: "calculateKeywordDensity (content sample_artifact) (keyword sample_artifact) = 2"
    by code_simp
  have a6: "internalLinks sample_artifact = Some ?il" by (simp add: sample_artifact_def)
  have a7: "length ?il = 5" by simp
  have a8: "externalLinks sample_artifact = Some ?el" by (simp add: sample_artifact_def)
  have a9: "length ?el = 4" by simp
  have a10: "readabilityScore sample_artifact = 70" by (simp add: sample_artifact_def)
  have a11: "faqs sample_artifact = Some ?fs" by (simp add: sample_artifact_def)
  have a12: "length ?fs = 3" by simp
  have lm: "sublist ''learn more'' (toLowerCase (content sample_artifact))" by code_simp
  then have a13: "sublist ''cta'' (toLowerCase (content sample_artifact))
         \<or> sublist ''call to action'' (toLowerCase (content sample_artifact))
         \<or> sublist ''get started'' (toLowerCase (content sample_artifact))
         \<or> sublist ''learn more'' (toLowerCase (content sample_artifact))" by blast
  have a14: "content sample_artifact = ?pre @ ''!['' @ ''chart'' @ '']('' @ ''chart.png'' @ '')'' @ ?post"
    by (simp add: sample_artifact_def sample_content_def)
  have a15: "\<forall>c\<in>set (''chart'' @ ''chart.png''). \<not> isLineTerminator c"
    by (simp add: isLineTerminator_def)
  have a16: "headings sample_artifact = [?h1, ?h2]" by (simp add: sample_artifact_def)
  have a17: "level ?h1 = 1" by simp
  have a18: "level ?h2 = 2" by simp
  have a19: "sublist (toLowerCase (keyword sample_artifact)) (toLowerCase (title sample_artifact))"
    by code_simp
  have a20: "sublist (toLowerCase (keyword sample_artifact)) (toLowerCase ?md)"
    by code_simp
  have a21: "sublist (toLowerCase (keyword sample_artifact)) (toLowerCase (heading.text ?h1))"
    by code_simp
  have a22: "sublist (toLowerCase (keyword sample_artifact))
               (toLowerCase (before_blank_line (content sample_artifact)))"
    by code_simp
  have a23: "(None :: faq list option) = None \<or> (None :: faq list option) = Some []" by simp
  from analyzeSEO_scenarios [OF a1 a2 a3 a4 a5 a6 a7 a8 a9 a10 a11 a12 a13 a14 a15 a16 a17 a18
      a19 a20 a21 a22 a23]
  show ?thesis using a1 a5 a4 a10 lm by blast
qed

section \<open>Bulk generation\<close>

lemma bulk_loop_posts:
  "bulk_loop gen clock aud incl posts items w =
     (posts @ fst (bulk_loop gen clock aud incl [] items w),
      snd (bulk_loop gen clock aud incl [] items w))"
proof (induction items arbitrary: posts w)
  case Nil
  then show ?case by simp
next
  case (Cons item items)
  obtain r w' where b: "bulk_item gen clock aud incl item w = (r, w')"
    by (cases "bulk_item gen clock aud incl item w")
  show ?case
    using Cons.IH [of "posts @ [r]" w'] Cons.IH [of "[r]" w'] b by simp
qed

lemma bulk_loop_Cons:
  "fst (bulk_loop gen clock aud incl [] (item # items) w) =
     fst (bulk_item gen clock aud incl item w)
       # fst (bulk_loop gen clock aud incl [] items (snd (bulk_item gen clock aud incl item w)))"
proof -
  obtain r w' where b: "bulk_item gen clock aud incl item w = (r, w')"
    by (cases "bulk_item gen clock aud incl item w")
  show ?thesis
    using bulk_loop_posts [of gen clock aud incl "[r]" items w'] b by simp
qed

lemma length_bulk_loop:
  "length (fst (bulk_loop gen clock aud incl [] items w)) = length items"
  by (induction items arbitrary: w) (simp_all add: bulk_loop_Cons del: bulk_loop.simps(2))

lemma nth_bulk_loop:
  "i < length items \<Longrightarrow>
   fst (bulk_loop gen clock aud incl [] items w) ! i =
     fst (bulk_item gen clock aud incl (items ! i)
            (foldl (\<lambda>w item. snd (bulk_item gen clock aud incl item w)) w (take i items)))"
proof (induction items arbitrary: i w)
  case Nil
  then show ?case by simp
next
  case (Cons item items)
  show ?case
  proof (cases i)
    case 0
    then show ?thesis by (simp add: bulk_loop_Cons del: bulk_loop.simps(2))
  next
    case (Suc j)
    then have "j < length items" using Cons.prems by simp
    from Cons.IH [OF this, of "snd (bulk_item gen clock aud incl item w)"]
    show ?thesis using Suc by (simp add: bulk_loop_Cons del: bulk_loop.simps(2))
  qed
qed

lemma bulk_item_cases:
  "bulk_item gen clock aud incl item w =
     (case fst (generateBlogPost gen clock (item_params aud incl item) w) of
        Inr post \<Rightarrow> Success post
      | Inl error \<Rightarrow> Failure (topic item) error,
      snd (generateBlogPost gen clock (item_params aud incl item) w))"
  by (simp add: bulk_item_def split: prod.splits sum.splits)

text \<open>
  C8. \<open>generateBulkPosts\<close> returns one element for each topic, in the order of the topics.
  The element at position \<open>i\<close> is the outcome of \<open>generateBlogPost\<close> for topic \<open>i\<close>, called in
  the state of the world that the calls for the topics before it have left, whether they
  failed or not: \<open>Success\<close> with the post when it returns, \<open>Failure\<close> with the topic of the
  item and the error when it throws. For three topics of which the second fails, the result
  is a success, the failure with the second topic, and a success.
\<close>

theorem generateBulkPosts_spec:
  assumes "aud = (case audience params of None \<Rightarrow> ''general audience'' | Some a \<Rightarrow> a)"
    and "incl = (case includeData params of None \<Rightarrow> True | Some b \<Rightarrow> b)"
  shows "length (fst (generateBulkPosts gen clock params w)) = length (topics params)
       \<and> (\<forall>i<length (topics params).
            fst (generateBulkPosts gen clock params w) ! i =
              (case fst (generateBlogPost gen clock (item_params aud incl (topics params ! i))
                           (foldl (\<lambda>w item. snd (generateBlogPost gen clock
                                                      (item_params aud incl item) w))
                              w (take i (topics params)))) of
                 Inr post \<Rightarrow> Success post
               | Inl error \<Rightarrow> Failure (topic (topics params ! i)) error))
       \<and> (topics params = [a, b, c]
            \<and> generateBlogPost gen clock (item_params aud incl a) w = (Inr pa, w1)
            \<and> generateBlogPost gen clock (item_params aud incl b) w1 = (Inl e, w2)
            \<and> generateBlogPost gen clock (item_params aud incl c) w2 = (Inr pc, w3)
            \<longrightarrow> fst (generateBulkPosts gen clock params w) =
                  [Success pa, Failure (topic b) e, Success pc])"
proof -
  have g: "generateBulkPosts gen clock params w = bulk_loop gen clock aud incl [] (topics params) w"
    using assms by (simp add: generateBulkPosts_def)
  have s: "(\<lambda>w item. snd (bulk_item gen clock aud incl item w)) =
           (\<lambda>w item. snd (generateBlogPost gen clock (item_params aud incl item) w))"
    by (intro ext) (simp add: bulk_item_cases)
  have 1: "length (fst (generateBulkPosts gen clock params w)) = length (topics params)"
    by (simp add: g length_bulk_loop)
  have 2: "\<forall>i<length (topics params).
            fst (generateBulkPosts gen clock params w) ! i =
              (case fst (generateBlogPost gen clock (item_params aud incl (topics params ! i))
                           (foldl (\<lambda>w item. snd (generateBlogPost gen clock
                                                      (item_params aud incl item) w))
                              w (take i (topics params)))) of
                 Inr post \<Rightarrow> Success post
               | Inl error \<Rightarrow> Failure (topic (topics params ! i)) error)"
    by (simp add: g nth_bulk_loop s) (simp add: bulk_item_cases)
  have 3: "topics params = [a, b, c]
            \<and> generateBlogPost gen clock (item_params aud incl a) w = (Inr pa, w1)
            \<and> generateBlogPost gen clock (item_params aud incl b) w1 = (Inl e, w2)
            \<and> generateBlogPost gen clock (item_params aud incl c) w2 = (Inr pc, w3)
            \<longrightarrow> fst (generateBulkPosts gen clock params w) =
                  [Success pa, Failure (topic b) e, Success pc]"
    by (simp add: g bulk_item_def)
  show ?thesis using 1 2 3 by blast
qed

theorem generateBulkPosts_spec_witness:
  "length (fst (generateBulkPosts sample_model sample_clock sample_bulk 0)) = 3
   \<and> (\<exists>pa pc. fst (generateBulkPosts sample_model sample_clock sample_bulk 0) =
         [Success pa, Failure ''second'' ''model unavailable'', Success pc])"
proof -
  let ?a = "\<lparr> topic = ''first'', keyword = ''k1'', tone = None \<rparr>"
  let ?b = "\<lparr> topic = ''second'', keyword = ''k2'', tone = Some ''casual'' \<rparr>"
  let ?c = "\<lparr> topic = ''third'', keyword = ''k3'', tone = Some [] \<rparr>"
  have au: "''general audience'' =
              (case audience sample_bulk of None \<Rightarrow> ''general audience'' | Some a \<Rightarrow> a)"
    by (simp add: sample_bulk_def)
  have ic: "True = (case includeData sample_bulk of None \<Rightarrow> True | Some b \<Rightarrow> b)"
    by (simp add: sample_bulk_def)
  have t: "topics sample_bulk = [?a, ?b, ?c]"
    by (simp add: sample_bulk_def sample_topics_def)
  obtain pa where 1: "generateBlogPost sample_model sample_clock
                        (item_params ''general audience'' True ?a) 0 = (Inr pa, 1)"
    by (simp add: generateBlogPost_def sample_model_def)
  have 2: "generateBlogPost sample_model sample_clock
             (item_params ''general audience'' True ?b) 1 = (Inl ''model unavailable'', 2)"
    by (simp add: generateBlogPost_def sample_model_def)
  obtain pc where 3: "generateBlogPost sample_model sample_clock
                        (item_params ''general audience'' True ?c) 2 = (Inr pc, 3)"
    by (simp add: generateBlogPost_def sample_model_def)
  from generateBulkPosts_spec [OF au ic, of sample_model sample_clock 0 ?a ?b ?c pa 1
      "''model unavailable''" 2 pc 3] t 1 2 3
  have "length (fst (generateBulkPosts sample_model sample_clock sample_bulk 0)) = 3"
    and "fst (generateBulkPosts sample_model sample_clock sample_bulk 0) =
           [Success pa, Failure ''second'' ''model unavailable'', Success pc]"
    by simp_all
  then show ?thesis by blast
qed

section \<open>Readability, proved\<close>

lemma letter_not_space: "isLowerLetter c \<Longrightarrow> \<not> isWhiteSpace c"
  by (auto simp add: isLowerLetter_def isWhiteSpace_def Let_def)

lemma space_isWhiteSpace: "isWhiteSpace (CHR '' '')"
  by (simp add: isWhiteSpace_def)

lemma tokens_replaced:
  "tokens isWhiteSpace (map (\<lambda>c. if isLowerLetter c then c else CHR '' '') s) =
     tokens (\<lambda>c. \<not> isLowerLetter c) s"
proof (induction "\<lambda>c. \<not> isLowerLetter c" s rule: tokens.induct)
  case 1
  then show ?case by simp
next
  case (2 c cs)
  let ?r = "\<lambda>c. if isLowerLetter c then c else CHR '' ''"
  show ?case
  proof (cases "isLowerLetter c")
    case False
    then show ?thesis using 2 by (simp add: space_isWhiteSpace)
  next
    case True
    have w: "(\<lambda>x. \<not> isWhiteSpace x) \<circ> ?r = isLowerLetter"
      by (rule ext) (simp add: space_isWhiteSpace letter_not_space)
    have t: "takeWhile (\<lambda>x. \<not> isWhiteSpace x) (map ?r cs) = takeWhile isLowerLetter cs"
    proof -
      have "takeWhile (\<lambda>x. \<not> isWhiteSpace x) (map ?r cs) = map ?r (takeWhile isLowerLetter cs)"
        by (simp only: takeWhile_map w)
      also have "\<dots> = takeWhile isLowerLetter cs"
        by (rule map_idI) (auto dest: set_takeWhileD)
      finally show ?thesis .
    qed
    have d: "dropWhile (\<lambda>x. \<not> isWhiteSpace x) (map ?r cs) = map ?r (dropWhile isLowerLetter cs)"
      by (simp only: dropWhile_map w)
    have ih: "tokens isWhiteSpace (map ?r (dropWhile isLowerLetter cs)) =
                tokens (\<lambda>c. \<not> isLowerLetter c) (dropWhile isLowerLetter cs)"
      using "2.hyps"(2) True by simp
    show ?thesis
      using True by (simp add: letter_not_space t d ih)
  qed
qed

lemma foldl_plus: "foldl (\<lambda>acc w. acc + g w) (a :: nat) ws = a + sum_list (map g ws)"
  by (induction ws arbitrary: a) simp_all

lemma vowel_runs: "match_all vowel_run w = tokens (\<lambda>c. \<not> isVowel c) w"
  by (simp add: vowel_run_def match_all_tokens)

lemma syllable_step:
  "(if length word \<le> 3 then acc + 1
    else let syllableMatches = String_match vowel_run word
         in acc + max 1 (case syllableMatches of Some ms \<Rightarrow> length ms | None \<Rightarrow> 1))
   = acc + syllables_of word"
  by (simp add: syllables_of_def String_match_def vowel_runs Let_def split: list.splits)

lemma countSyllables_eq: "countSyllables t = sum_list (map syllables_of (letter_words t))"
proof -
  have "countSyllables t =
          foldl (\<lambda>acc w. acc + syllables_of w) 0
            (tokens isWhiteSpace
               (map (\<lambda>c. if isLowerLetter c then c else CHR '' '') (toLowerCase t)))"
    unfolding countSyllables_def whitespace_run_def String_split_tokens syllable_step ..
  then show ?thesis
    by (simp add: foldl_plus tokens_replaced letter_words_def)
qed

lemma sentences_eq:
  "filter (\<lambda>s. length (trim s) > 0) (String_split sentence_end_run t) =
     filter (\<lambda>s. \<not> list_all isWhiteSpace s) (tokens isSentenceEnd t)"
proof -
  have "filter (\<lambda>s. \<not> list_all isWhiteSpace s)
          (filter (\<lambda>w. length w > 0) (String_split (class_plus isSentenceEnd) t)) =
        filter (\<lambda>s. length (trim s) > 0) (String_split (class_plus isSentenceEnd) t)"
    unfolding filter_filter trim_empty_iff by (rule filter_cong) (auto simp add: list_all_iff)
  then show ?thesis
    unfolding String_split_tokens sentence_end_run_def by simp
qed

lemma clamp_round:
  "max 0 (min 100 (Math_round x)) = round (max 0 (min 100 x))"
proof -
  consider "x < 0" | "0 \<le> x \<and> x \<le> 100" | "100 < x" by linarith
  then show ?thesis
  proof cases
    case 1
    then have "x + 1 / 2 < of_int 0 + 1" by simp
    then have "\<lfloor>x + 1 / 2\<rfloor> \<le> 0" by (simp only: floor_le_iff)
    moreover have "max 0 (min 100 x) = 0" using 1 by simp
    ultimately show ?thesis by (simp add: Math_round_def round_def floor_half)
  next
    case 2
    then have "0 \<le> Math_round x \<and> Math_round x \<le> 100"
      using Math_round_bounds [of x 100] by simp
    moreover have "max 0 (min 100 x) = x" using 2 by simp
    ultimately show ?thesis by (simp add: Math_round_def round_def)
  next
    case 3
    then have "of_int 100 \<le> x + 1 / 2" by simp
    then have "100 \<le> \<lfloor>x + 1 / 2\<rfloor>" by (simp only: le_floor_iff)
    moreover have "max 0 (min 100 x) = 100" using 3 by simp
    moreover have "\<lfloor>100 + 1 / 2 :: rat\<rfloor> = 100" by code_simp
    ultimately show ?thesis by (simp add: Math_round_def round_def)
  qed
qed

lemma calculateReadability_eq:
  "calculateReadability t =
     (if sentence_count t = 0 \<or> word_count t = 0 then 0
      else max 0 (min 100 (Math_round
             (flesch_double (sentence_count t) (word_count t) (syllable_count t)))))"
  unfolding calculateReadability_def Let_def sentences_eq whitespace_run_def String_split_tokens
    countSyllables_eq
  by (simp add: sentence_count_def word_count_def syllable_count_def flesch_double_def)

lemma calculateReadability_bounds: "0 \<le> calculateReadability t \<and> calculateReadability t \<le> 100"
  by (simp add: calculateReadability_eq)

lemma calculateReadability_claimed:
  assumes "flesch_error (sentence_count t) (word_count t) (syllable_count t)
             < \<bar>frac (flesch_exact (sentence_count t) (word_count t) (syllable_count t)) - 1 / 2\<bar>"
  shows "calculateReadability t = claimed_readability t"
proof (cases "sentence_count t = 0 \<or> word_count t = 0")
  case True
  then show ?thesis by (simp add: calculateReadability_eq claimed_readability_def flesch_def)
next
  case False
  then have p: "0 < sentence_count t" "0 < word_count t" by simp_all
  have "Math_round (flesch_double (sentence_count t) (word_count t) (syllable_count t))
          = round (flesch_exact (sentence_count t) (word_count t) (syllable_count t))"
    using flesch_double_err [OF p] assms by (rule Math_round_near)
  then have "Math_round (flesch_double (sentence_count t) (word_count t) (syllable_count t))
          = Math_round (flesch_exact (sentence_count t) (word_count t) (syllable_count t))"
    by (simp add: Math_round_def round_def)
  then show ?thesis
    using False unfolding calculateReadability_eq claimed_readability_def flesch_def
    by (simp add: clamp_round)
qed

lemma calculateReadability_near:
  assumes "sentence_count t \<noteq> 0" "word_count t \<noteq> 0"
  shows "\<bar>flesch_double (sentence_count t) (word_count t) (syllable_count t)
           - flesch_exact (sentence_count t) (word_count t) (syllable_count t)\<bar>
         \<le> flesch_error (sentence_count t) (word_count t) (syllable_count t)"
  using assms by (intro flesch_double_err) simp_all

lemma tie_text_words: "word_count tie_text = 520"
proof -
  have e: "tokens isWhiteSpace '' is.'' = [''is.'']" by code_simp
  have "tokens isWhiteSpace tie_text =
          replicate 13 ''hello.'' @ replicate 104 ''hello'' @ replicate 402 ''is'' @
          tokens isWhiteSpace '' is.''"
    unfolding tie_text_def by (rule tokens_repeat3) (simp_all add: isWhiteSpace_def)
  then have "tokens isWhiteSpace tie_text =
          replicate 13 ''hello.'' @ replicate 104 ''hello'' @ replicate 402 ''is'' @ [''is.'']"
    unfolding e .
  then show ?thesis by (simp add: word_count_def)
qed

lemma tie_text_syllables: "syllable_count tie_text = 637"
proof -
  let ?sep = "\<lambda>c. \<not> isLowerLetter c"
  let ?r3 = "concat (replicate 402 '' is'') @ '' is.''"
  let ?r2 = "concat (replicate 104 '' hello'') @ ?r3"
  have l: "toLowerCase '' hello.'' = '' hello.''" "toLowerCase '' hello'' = '' hello''"
    "toLowerCase '' is'' = '' is''" "toLowerCase '' is.'' = '' is.''"
    by code_simp+
  have t: "toLowerCase tie_text = tie_text"
    unfolding tie_text_def toLowerCase_repeat l ..
  have n: "?sep (CHR '' '')" "?sep (CHR ''.'')"
    "\<forall>c\<in>set ''hello''. \<not> ?sep c" "\<forall>c\<in>set ''is''. \<not> ?sep c"
    by code_simp+
  have e: "tokens ?sep '' is.'' = [''is'']" by code_simp
  have u: "'' hello.'' = CHR '' '' # ''hello'' @ ''.''" by simp
  have r3: "?r3 = [] \<or> ?sep (hd ?r3)"
    using n(1) by (rule starts_repeat) (simp add: n(1))
  have "tokens ?sep tie_text = tokens ?sep (concat (replicate 13 (CHR '' '' # ''hello'' @ ''.'')) @ ?r2)"
    unfolding tie_text_def by (subst u) (rule refl)
  also have "\<dots> = replicate 13 ''hello'' @ tokens ?sep ?r2"
    using _ n(3) n(1) n(2) by (rule tokens_repeat_both) simp
  also have "tokens ?sep ?r2 = replicate 104 ''hello'' @ tokens ?sep ?r3"
    using _ n(3) n(1) r3 by (rule tokens_repeat_pre) simp
  also have "tokens ?sep ?r3 = replicate 402 ''is'' @ tokens ?sep '' is.''"
    using _ n(4) n(1) by (rule tokens_repeat_pre) (simp_all add: n(1))
  finally have w: "letter_words tie_text =
      replicate 13 ''hello'' @ replicate 104 ''hello'' @ replicate 402 ''is'' @ [''is'']"
    unfolding e letter_words_def t .
  have s: "syllables_of ''hello'' = 2" "syllables_of ''is'' = 1" by code_simp+
  show ?thesis
    unfolding syllable_count_def w by (simp add: s sum_list_replicate)
qed

lemma tie_text_sentences: "sentence_count tie_text = 14"
proof -
  let ?R = "concat (replicate 104 '' hello'') @ concat (replicate 402 '' is'') @ '' is''"
  have n: "isSentenceEnd (CHR ''.'')" "\<forall>c\<in>set '' hello''. \<not> isSentenceEnd c"
    "\<forall>c\<in>set '' is''. \<not> isSentenceEnd c"
    "\<not> list_all isWhiteSpace '' hello''" "\<not> list_all isWhiteSpace '' is''"
    by code_simp+
  have e: "tokens isSentenceEnd ''.'' = []" by code_simp
  have R: "?R \<noteq> []" "\<forall>c\<in>set ?R. \<not> isSentenceEnd c" "\<not> list_all isWhiteSpace ?R"
    using n(2,3,5) by auto
  have "tie_text = concat (replicate 13 ('' hello'' @ ''.'')) @ (?R @ ''.'')"
    by (simp add: tie_text_def)
  then have "tokens isSentenceEnd tie_text =
      tokens isSentenceEnd (concat (replicate 13 ('' hello'' @ ''.'')) @ (?R @ ''.''))"
    by (rule arg_cong)
  also have "\<dots> = replicate 13 '' hello'' @ tokens isSentenceEnd (?R @ ''.'')"
    using _ n(2) n(1) by (rule tokens_repeat) simp
  also have "tokens isSentenceEnd (?R @ ''.'') = ?R # tokens isSentenceEnd ''.''"
    using R(1,2) by (rule tokens_word) (simp add: n(1))
  finally have "tokens isSentenceEnd tie_text = replicate 13 '' hello'' @ [?R]"
    unfolding e .
  then show ?thesis
    unfolding sentence_count_def using n(4) R(3) by simp
qed

text \<open>
  C4, as amended. The readability score is 0 when there is no sentence or no word, so 0 for
  the empty string, and otherwise the Flesch value
  \<open>206.835 - 1.015 * (words / sentences) - 84.6 * (syllables / words)\<close> computed in
  double-precision arithmetic, rounded to the nearest integer (a tie going up) and clamped
  to \<open>[0, 100]\<close>. The sentences are the pieces between runs of \<open>. ! ?\<close> that are not blank;
  the words are the whitespace-delimited non-empty tokens; the syllables are counted over
  the runs of letters of the lower-cased text. The double-precision value lies within
  \<open>(206.835 + 1.015 * (words / sentences) + 84.6 * (syllables / words)) / 2^50\<close> of the exact
  value, so the score is the exact value clamped and rounded whenever the fractional part
  of the exact value is farther than that from one half. The score lies between 0 and 100.
\<close>

theorem calculateReadability_amended:
  "calculateReadability t =
     (if sentence_count t = 0 \<or> word_count t = 0 then 0
      else max 0 (min 100 (Math_round
             (flesch_double (sentence_count t) (word_count t) (syllable_count t)))))
   \<and> (sentence_count t \<noteq> 0 \<and> word_count t \<noteq> 0 \<longrightarrow>
        \<bar>flesch_double (sentence_count t) (word_count t) (syllable_count t)
           - flesch_exact (sentence_count t) (word_count t) (syllable_count t)\<bar>
        \<le> flesch_error (sentence_count t) (word_count t) (syllable_count t))
   \<and> (flesch_error (sentence_count t) (word_count t) (syllable_count t)
         < \<bar>frac (flesch_exact (sentence_count t) (word_count t) (syllable_count t)) - 1 / 2\<bar>
       \<longrightarrow> calculateReadability t = claimed_readability t)
   \<and> calculateReadability [] = 0
   \<and> 0 \<le> calculateReadability t \<and> calculateReadability t \<le> 100"
proof -
  have e: "calculateReadability [] = 0"
    by (simp add: calculateReadability_eq word_count_def)
  show ?thesis
    using calculateReadability_eq [of t] calculateReadability_near [of t]
      calculateReadability_claimed [of t] e calculateReadability_bounds [of t]
    by blast
qed

text \<open>
  C4 as stated fails on a text of 14 sentences, 520 words and 637 syllables. The exact
  Flesch value is 65.5, which rounds to 66; the double-precision value is just below 65.5,
  so the code returns 65.
\<close>

theorem calculateReadability_counterexample:
  "sentence_count tie_text = 14 \<and> word_count tie_text = 520 \<and> syllable_count tie_text = 637
   \<and> flesch_exact 14 520 637 = 131 / 2
   \<and> claimed_readability tie_text = 66
   \<and> calculateReadability tie_text = 65"
proof -
  note n = tie_text_sentences tie_text_words tie_text_syllables
  have x: "flesch_exact 14 520 637 = 131 / 2" by code_simp
  have c: "flesch 14 520 637 = 66" by code_simp
  have d: "max 0 (min 100 (Math_round (flesch_double 14 520 637))) = 65" by code_simp
  have "claimed_readability tie_text = 66"
    unfolding claimed_readability_def n by (rule c)
  moreover have "calculateReadability tie_text = 65"
    unfolding calculateReadability_eq n using d by simp
  ultimately show ?thesis using n x by simp
qed

theorem calculateReadability_amended_witness:
  "sentence_count ''The banana is yellow. It is ripe!'' = 2
   \<and> word_count ''The banana is yellow. It is ripe!'' = 7
   \<and> syllable_count ''The banana is yellow. It is ripe!'' = 11
   \<and> claimed_readability ''The banana is yellow. It is ripe!'' = 70
   \<and> calculateReadability ''The banana is yellow. It is ripe!'' = 70"
proof -
  let ?t = "''The banana is yellow. It is ripe!''"
  have n: "sentence_count ?t = 2" "word_count ?t = 7" "syllable_count ?t = 11"
    by code_simp+
  have f: "flesch_error 2 7 11 < \<bar>frac (flesch_exact 2 7 11) - 1 / 2\<bar>"
    by code_simp
  have c: "flesch 2 7 11 = 70"
    by code_simp
  have "calculateReadability ?t = claimed_readability ?t"
    using calculateReadability_amended [of ?t] f unfolding n by blast
  then show ?thesis
    using n c by (simp add: claimed_readability_def)
qed

end
